theory Spec2Isabelle
  imports Main
begin

section \<open>Python values and the object store\<close>

text \<open>
  \<^verbatim>\<open>SamlProvider.get_provider_config(self, defaults)\<close> (models.py, lines 135-208) reads
  the stored provider, deep-copies the \<^verbatim>\<open>defaults\<close> dict, calls \<^verbatim>\<open>setdefault\<close> on the
  copy and returns a freshly built dict. Dicts and lists are mutable objects that are
  passed by reference, so they live in a store: a list of objects, the address of an
  object being its position. Atomic values (None, bool, int, str) are immutable and are
  held inline. Dict keys are strings, as in a JSON-like settings template; a dict is an
  association list in insertion order.
\<close>

type_synonym addr = nat

datatype val = VNone | VBool bool | VInt int | VStr string | VRef addr

datatype obj = ODict "(string \<times> val) list" | OList "val list"

type_synonym heap = "obj list"

text \<open>
  The exceptions a step of the method can raise. \<open>SystemError\<close> stands for the use of an
  address outside the store, which no Python program reaches.
\<close>

datatype error = TypeError | AttributeError | KeyError | IndexError | SystemError

definition obj_at :: "heap \<Rightarrow> addr \<Rightarrow> obj option" where
  "obj_at h a = (if a < length h then Some (h ! a) else None)"

definition alloc :: "obj \<Rightarrow> heap \<Rightarrow> heap \<times> val" where
  "alloc ob h = (h @ [ob], VRef (length h))"

fun refs_of_val :: "val \<Rightarrow> addr list" where
  "refs_of_val (VRef a) = [a]"
| "refs_of_val _ = []"

fun vals_of_obj :: "obj \<Rightarrow> val list" where
  "vals_of_obj (ODict kvs) = map snd kvs"
| "vals_of_obj (OList vs) = vs"

definition refs_of_obj :: "obj \<Rightarrow> addr list" where
  "refs_of_obj ob = concat (map refs_of_val (vals_of_obj ob))"

text \<open>No object of the store refers to an address outside the store.\<close>

definition wf_heap :: "heap \<Rightarrow> bool" where
  "wf_heap h = list_all (\<lambda>ob. list_all (\<lambda>b. b < length h) (refs_of_obj ob)) h"

subsection \<open>Dict operations on the items\<close>

text \<open>\<^verbatim>\<open>d[k] = v\<close>: an existing key keeps its position, a new key is appended.\<close>

fun dict_setitem :: "(string \<times> 'v) list \<Rightarrow> string \<Rightarrow> 'v \<Rightarrow> (string \<times> 'v) list" where
  "dict_setitem [] k v = [(k, v)]"
| "dict_setitem ((k', v') # kvs) k v =
     (if k' = k then (k, v) # kvs else (k', v') # dict_setitem kvs k v)"

text \<open>\<^verbatim>\<open>{**a, **b}\<close>: the items of \<open>a\<close>, then each item of \<open>b\<close> set in turn.\<close>

fun dict_update :: "(string \<times> 'v) list \<Rightarrow> (string \<times> 'v) list \<Rightarrow> (string \<times> 'v) list" where
  "dict_update a [] = a"
| "dict_update a ((k, v) # b) = dict_update (dict_setitem a k v) b"

subsection \<open>Snapshots\<close>

text \<open>
  The structure reachable from a value, unfolded to a given depth into a tree: what a
  deep comparison of two Python values looks at. \<open>TCut\<close> marks an object below the
  depth, \<open>TBad\<close> an address outside the store.
\<close>

datatype tree = TNone | TBool bool | TInt int | TStr string
  | TDict "(string \<times> tree) list" | TList "tree list" | TCut | TBad

fun view :: "nat \<Rightarrow> heap \<Rightarrow> val \<Rightarrow> tree" where
  "view n h VNone = TNone"
| "view n h (VBool b) = TBool b"
| "view n h (VInt i) = TInt i"
| "view n h (VStr s) = TStr s"
| "view 0 h (VRef a) = TCut"
| "view (Suc n) h (VRef a) =
     (case obj_at h a of
        None \<Rightarrow> TBad
      | Some (ODict kvs) \<Rightarrow> TDict (map (\<lambda>kv. (fst kv, view n h (snd kv))) kvs)
      | Some (OList vs) \<Rightarrow> TList (map (view n h) vs))"

fun tree_items :: "tree \<Rightarrow> (string \<times> tree) list" where
  "tree_items (TDict kvs) = kvs"
| "tree_items _ = []"

definition tree_get :: "tree \<Rightarrow> string \<Rightarrow> tree option" where
  "tree_get t k = map_of (tree_items t) k"

definition tree_keys :: "tree \<Rightarrow> string list" where
  "tree_keys t = map fst (tree_items t)"

text \<open>The items of the sub-object under key \<open>k\<close>, none when the key is absent.\<close>

definition sub_items :: "tree \<Rightarrow> string \<Rightarrow> (string \<times> tree) list" where
  "sub_items t k = (case tree_get t k of None \<Rightarrow> [] | Some s \<Rightarrow> tree_items s)"

section \<open>copy.deepcopy\<close>

text \<open>
  \<^verbatim>\<open>copy.deepcopy\<close> is Python library code. It walks the structure depth first, keeps a
  memo of the objects it has met, allocates one new object for each and fills it with
  the copies of its members; atomic values are returned as they are. \<open>reach\<close> is that
  walk: \<open>vis\<close> is the memo in the order of the first visits, \<open>todo\<close> the stack of
  members still to copy.
\<close>

function reach :: "heap \<Rightarrow> addr list \<Rightarrow> addr list \<Rightarrow> addr list" where
  "reach h [] vis = vis"
| "reach h (a # todo) vis =
     (if a \<in> set vis \<or> length h \<le> a then reach h todo vis
      else reach h (refs_of_obj (h ! a) @ todo) (vis @ [a]))"
  by pat_completeness auto
termination
proof (relation "measures [\<lambda>(h, todo, vis). card ({..<length h} - set vis),
                           \<lambda>(h, todo, vis). length todo]", goal_cases)
  case 1
  show ?case by simp
next
  case (2 h a todo vis)
  show ?case by simp
next
  case (3 h a todo vis)
  then have "a \<notin> set vis" "a < length h" by auto
  then have "{..<length h} - set (vis @ [a]) \<subset> {..<length h} - set vis" by auto
  then have "card ({..<length h} - set (vis @ [a])) < card ({..<length h} - set vis)"
    by (intro psubset_card_mono) auto
  then show ?case by simp
qed

fun index_of :: "'a list \<Rightarrow> 'a \<Rightarrow> nat" where
  "index_of [] x = 0"
| "index_of (y # ys) x = (if x = y then 0 else Suc (index_of ys x))"

fun rename_val :: "(addr \<Rightarrow> addr) \<Rightarrow> val \<Rightarrow> val" where
  "rename_val r (VRef a) = VRef (r a)"
| "rename_val r v = v"

fun rename_obj :: "(addr \<Rightarrow> addr) \<Rightarrow> obj \<Rightarrow> obj" where
  "rename_obj r (ODict kvs) = ODict (map (\<lambda>kv. (fst kv, rename_val r (snd kv))) kvs)"
| "rename_obj r (OList vs) = OList (map (rename_val r) vs)"

text \<open>The address of the copy of \<open>b\<close>, the objects \<open>R\<close> being copied onto the end of \<open>h\<close>.\<close>

definition copy_addr :: "heap \<Rightarrow> addr list \<Rightarrow> addr \<Rightarrow> addr" where
  "copy_addr h R b = length h + index_of R b"

text \<open>The new objects: the copy of each object of \<open>R\<close>, its members renamed to the copies.\<close>

definition copies :: "heap \<Rightarrow> addr list \<Rightarrow> obj list" where
  "copies h R = map (\<lambda>b. rename_obj (copy_addr h R) (h ! b)) R"

definition deepcopy :: "val \<Rightarrow> heap \<Rightarrow> heap \<times> val" where
  "deepcopy x h =
     (case x of
        VRef a \<Rightarrow> (let R = reach h [a] [] in (h @ copies h R, VRef (copy_addr h R a)))
      | _ \<Rightarrow> (h, x))"

section \<open>The provider record\<close>

text \<open>
  The fields of \<^verbatim>\<open>SamlProvider\<close> that \<^verbatim>\<open>get_provider_config\<close> reads. The two many-to-many
  relations are held as the lists that
  \<^verbatim>\<open>values_list("certificate", flat=True)\<close> returns: the PEM texts, in the order of the
  query.
\<close>

record provider =
  name :: string
  idp_x509_signing_certificates :: "string list"
  idp_x509_encryption_certificates :: "string list"
  idp_issuer :: string
  idp_sso_url :: string
  idp_sso_binding :: string
  nameidformat :: string
  sp_acs_binding :: string
  debug :: bool
  lowercase_urlencoding :: bool
  idp_initiated_auth :: bool
  sec_want_messages_signed :: bool
  sec_want_assertions_signed :: bool
  sec_want_assertions_encrypted :: bool

section \<open>Selecting the certificate field (lines 139-172)\<close>

text \<open>\<^verbatim>\<open>certs\<close>: a dict from the role to the list of PEM texts.\<close>

type_synonym certs = "(string \<times> string list) list"

definition certs_of :: "provider \<Rightarrow> certs" where
  "certs_of self =
     [(''encryption'', idp_x509_encryption_certificates self),
      (''signing'', idp_x509_signing_certificates self)]"

text \<open>\<^verbatim>\<open>k in certs and len(certs[k]) == 1\<close>\<close>

definition has_one :: "certs \<Rightarrow> string \<Rightarrow> bool" where
  "has_one certs k = (case map_of certs k of None \<Rightarrow> False | Some xs \<Rightarrow> length xs = 1)"

text \<open>\<^verbatim>\<open>certs[k][0]\<close>\<close>

definition first_of :: "certs \<Rightarrow> string \<Rightarrow> error + string" where
  "first_of certs k =
     (case map_of certs k of
        None \<Rightarrow> Inl KeyError
      | Some [] \<Rightarrow> Inl IndexError
      | Some (x # _) \<Rightarrow> Inr x)"

text \<open>The first disjunct of the condition (lines 154-158).\<close>

definition only_role_single :: "certs \<Rightarrow> bool" where
  "only_role_single certs =
     (length certs = 1 \<and> (has_one certs ''signing'' \<or> has_one certs ''encryption''))"

text \<open>The second disjunct (lines 160-165); the comparison is reached only when both
  lists have one element.\<close>

definition both_roles_same :: "certs \<Rightarrow> error + bool" where
  "both_roles_same certs =
     (if has_one certs ''signing'' \<and> has_one certs ''encryption'' then
        (case first_of certs ''signing'' of
           Inl e \<Rightarrow> Inl e
         | Inr s \<Rightarrow>
             (case first_of certs ''encryption'' of
                Inl e \<Rightarrow> Inl e
              | Inr t \<Rightarrow> Inr (s = t)))
      else Inr False)"

text \<open>The values of \<^verbatim>\<open>idp_certificates\<close>: one PEM text, or the dict \<^verbatim>\<open>certs\<close>.\<close>

datatype cert_field = Single string | Multi certs

text \<open>Lines 167-170: which list the single certificate is taken from.\<close>

definition single_role :: "certs \<Rightarrow> string" where
  "single_role certs = (if map_of certs ''signing'' \<noteq> None then ''signing'' else ''encryption'')"

definition emit_single :: "certs \<Rightarrow> error + (string \<times> cert_field) list" where
  "emit_single certs =
     (case first_of certs (single_role certs) of
        Inl e \<Rightarrow> Inl e
      | Inr c \<Rightarrow> Inr [(''x509cert'', Single c)])"

text \<open>Lines 150-172. \<^verbatim>\<open>certs is not None\<close> holds of every dict.\<close>

definition idp_certificates_of :: "certs \<Rightarrow> error + (string \<times> cert_field) list" where
  "idp_certificates_of certs =
     (if only_role_single certs then emit_single certs
      else
        (case both_roles_same certs of
           Inl e \<Rightarrow> Inl e
         | Inr True \<Rightarrow> emit_single certs
         | Inr False \<Rightarrow> Inr [(''x509certMulti'', Multi certs)]))"

section \<open>Building the configuration (lines 174-208)\<close>

text \<open>
  \<^verbatim>\<open>certs\<close>, its two lists and \<^verbatim>\<open>idp_certificates\<close> are new objects that only the call
  itself can reach, so they are held as values up to here. \<^verbatim>\<open>certs\<close> and its lists
  become objects of the store when the \<^verbatim>\<open>idp\<close> dict that refers to them is built; the
  dict \<^verbatim>\<open>idp_certificates\<close> and the inner dict literals that \<^verbatim>\<open>**\<close> unpacks are dropped by
  the source after the unpacking and get no address.
\<close>

fun store_lists :: "certs \<Rightarrow> heap \<Rightarrow> heap \<times> (string \<times> val) list" where
  "store_lists [] h = (h, [])"
| "store_lists ((k, xs) # rest) h =
     (let (h1, l) = alloc (OList (map VStr xs)) h;
          (h2, kvs) = store_lists rest h1
      in (h2, (k, l) # kvs))"

definition store_certs :: "certs \<Rightarrow> heap \<Rightarrow> heap \<times> val" where
  "store_certs certs h = (let (h1, kvs) = store_lists certs h in alloc (ODict kvs) h1)"

fun store_field :: "cert_field \<Rightarrow> heap \<Rightarrow> heap \<times> val" where
  "store_field (Single c) h = (h, VStr c)"
| "store_field (Multi certs) h = store_certs certs h"

fun store_fields :: "(string \<times> cert_field) list \<Rightarrow> heap \<Rightarrow> heap \<times> (string \<times> val) list" where
  "store_fields [] h = (h, [])"
| "store_fields ((k, f) # rest) h =
     (let (h1, v) = store_field f h;
          (h2, kvs) = store_fields rest h1
      in (h2, (k, v) # kvs))"

text \<open>Lines 176-183: the \<^verbatim>\<open>idp\<close> dict.\<close>

definition build_idp :: "provider \<Rightarrow> (string \<times> cert_field) list \<Rightarrow> heap \<Rightarrow> heap \<times> val" where
  "build_idp self idp_certificates h =
     (let (h1, cert_items) = store_fields idp_certificates h;
          (h2, sso) = alloc (ODict [(''url'', VStr (idp_sso_url self)),
                                    (''binding'', VStr (idp_sso_binding self))]) h1
      in alloc (ODict (dict_update
                  [(''entityId'', VStr (idp_issuer self)), (''singleSignOnService'', sso)]
                  cert_items)) h2)"

text \<open>\<^verbatim>\<open>d.setdefault(k, dflt)\<close>: only a dict has the method.\<close>

definition setdefault :: "val \<Rightarrow> string \<Rightarrow> val \<Rightarrow> heap \<Rightarrow> heap \<times> (error + val)" where
  "setdefault d k dflt h =
     (case d of
        VRef a \<Rightarrow>
          (case obj_at h a of
             None \<Rightarrow> (h, Inl SystemError)
           | Some (OList vs) \<Rightarrow> (h, Inl AttributeError)
           | Some (ODict kvs) \<Rightarrow>
               (case map_of kvs k of
                  Some v \<Rightarrow> (h, Inr v)
                | None \<Rightarrow> (h[a := ODict (kvs @ [(k, dflt)])], Inr dflt)))
      | _ \<Rightarrow> (h, Inl AttributeError))"

text \<open>The operand of \<^verbatim>\<open>**\<close> in a dict display must be a mapping.\<close>

definition mapping_items :: "heap \<Rightarrow> val \<Rightarrow> error + (string \<times> val) list" where
  "mapping_items h v =
     (case v of
        VRef a \<Rightarrow>
          (case obj_at h a of
             None \<Rightarrow> Inl SystemError
           | Some (OList vs) \<Rightarrow> Inl TypeError
           | Some (ODict kvs) \<Rightarrow> Inr kvs)
      | _ \<Rightarrow> Inl TypeError)"

text \<open>Sequencing: the first error ends the call, the store is kept.\<close>

definition and_then ::
    "heap \<times> (error + 'a) \<Rightarrow> ('a \<Rightarrow> heap \<Rightarrow> heap \<times> (error + 'b)) \<Rightarrow> heap \<times> (error + 'b)" where
  "and_then m f = (case m of (h, Inl e) \<Rightarrow> (h, Inl e) | (h, Inr x) \<Rightarrow> f x h)"

definition unpack :: "val \<Rightarrow> heap \<Rightarrow> heap \<times> (error + (string \<times> val) list)" where
  "unpack v h = (h, mapping_items h v)"

text \<open>
  Lines 184-194: the \<^verbatim>\<open>sp\<close> dict,
  \<^verbatim>\<open>{**config.setdefault("sp", dict()), **{...}}\<close>. The empty dict is made,
  \<^verbatim>\<open>setdefault\<close> runs on the copy, its result is unpacked, then the items of the literal
  are laid over it.
\<close>

definition build_sp :: "provider \<Rightarrow> val \<Rightarrow> heap \<Rightarrow> heap \<times> (error + val)" where
  "build_sp self config h =
     (let (h1, empty) = alloc (ODict []) h
      in and_then (setdefault config ''sp'' empty h1) (\<lambda>v h2.
         and_then (unpack v h2) (\<lambda>kvs h3.
           (let (h4, acs) = alloc (ODict [(''url'', VStr ''''),
                                          (''binding'', VStr (sp_acs_binding self))]) h3;
                (h5, sp) = alloc (ODict (dict_update kvs
                             [(''entityId'', VStr ''''),
                              (''NameIDFormat'', VStr (nameidformat self)),
                              (''assertionConsumerService'', acs)])) h4
            in (h5, Inr sp)))))"

text \<open>Lines 195-202: the \<^verbatim>\<open>security\<close> dict, built the same way.\<close>

definition build_security :: "provider \<Rightarrow> val \<Rightarrow> heap \<Rightarrow> heap \<times> (error + val)" where
  "build_security self config h =
     (let (h1, empty) = alloc (ODict []) h
      in and_then (setdefault config ''security'' empty h1) (\<lambda>v h2.
         and_then (unpack v h2) (\<lambda>kvs h3.
           (let (h4, security) = alloc (ODict (dict_update kvs
                             [(''wantMessagesSigned'', VBool (sec_want_messages_signed self)),
                              (''wantAssertionsSigned'', VBool (sec_want_assertions_signed self)),
                              (''wantAssertionsEncrypted'',
                                 VBool (sec_want_assertions_encrypted self))])) h3
            in (h4, Inr security)))))"

text \<open>\<^verbatim>\<open>d[k] = v\<close> on an object of the store.\<close>

definition setitem :: "val \<Rightarrow> string \<Rightarrow> val \<Rightarrow> heap \<Rightarrow> heap \<times> (error + unit)" where
  "setitem d k v h =
     (case d of
        VRef a \<Rightarrow>
          (case obj_at h a of
             None \<Rightarrow> (h, Inl SystemError)
           | Some (OList vs) \<Rightarrow> (h, Inl TypeError)
           | Some (ODict kvs) \<Rightarrow> (h[a := ODict (dict_setitem kvs k v)], Inr ()))
      | _ \<Rightarrow> (h, Inl TypeError))"

text \<open>Lines 204-206: the three flags, set on the new top-level dict.\<close>

definition set_flags :: "provider \<Rightarrow> val \<Rightarrow> heap \<Rightarrow> heap \<times> (error + val)" where
  "set_flags self config h =
     and_then (setitem config ''debug'' (VBool (debug self)) h) (\<lambda>u h1.
     and_then (setitem config ''lowercase_urlencoding''
                 (VBool (lowercase_urlencoding self)) h1) (\<lambda>u h2.
     and_then (setitem config ''idp_initiated_auth''
                 (VBool (idp_initiated_auth self)) h2) (\<lambda>u h3.
     (h3, Inr config))))"

text \<open>
  The whole method. The name \<^verbatim>\<open>config\<close> is bound twice in the source: to the deep copy
  (line 174) and then to the new dict (line 175), here \<open>config\<close> and \<open>config'\<close>.
\<close>

definition get_provider_config :: "provider \<Rightarrow> val \<Rightarrow> heap \<Rightarrow> heap \<times> (error + val)" where
  "get_provider_config self defaults h =
     (case idp_certificates_of (certs_of self) of
        Inl e \<Rightarrow> (h, Inl e)
      | Inr idp_certificates \<Rightarrow>
          (let (h1, config) = deepcopy defaults h;
               (h2, idp) = build_idp self idp_certificates h1
           in and_then (build_sp self config h2) (\<lambda>sp h3.
              and_then (build_security self config h3) (\<lambda>security h4.
                (let (h5, config') =
                       alloc (ODict [(''idp'', idp), (''sp'', sp), (''security'', security)]) h4
                 in set_flags self config' h5)))))"

text \<open>What the caller sees of a call: the error raised, or the returned value unfolded
  to depth \<open>n\<close> in the store the call leaves.\<close>

definition observe :: "nat \<Rightarrow> heap \<times> (error + val) \<Rightarrow> error + tree" where
  "observe n r = (case r of (h, Inl e) \<Rightarrow> Inl e | (h, Inr v) \<Rightarrow> Inr (view n h v))"

section \<open>Templates\<close>

text \<open>
  The specification takes the defaults from "a nested key/value structure whose shape
  mirrors the output". The predicates below say what that means for a value of the
  store. \<open>wf_heap\<close> (above) and \<open>in_store\<close> hold of every store and value of a running
  program; \<open>template\<close> is what the method needs to return at all.
\<close>

definition in_store :: "heap \<Rightarrow> val \<Rightarrow> bool" where
  "in_store h v = list_all (\<lambda>a. a < length h) (refs_of_val v)"

definition is_dict :: "heap \<Rightarrow> val \<Rightarrow> bool" where
  "is_dict h v =
     (case v of
        VRef a \<Rightarrow> (case obj_at h a of Some (ODict kvs) \<Rightarrow> True | _ \<Rightarrow> False)
      | _ \<Rightarrow> False)"

text \<open>The items of a dict, none for any other value.\<close>

definition dict_items :: "heap \<Rightarrow> val \<Rightarrow> (string \<times> val) list" where
  "dict_items h v = (case mapping_items h v of Inr kvs \<Rightarrow> kvs | Inl e \<Rightarrow> [])"

definition section_ok :: "heap \<Rightarrow> val \<Rightarrow> string \<Rightarrow> bool" where
  "section_ok h d k = (case map_of (dict_items h d) k of None \<Rightarrow> True | Some v \<Rightarrow> is_dict h v)"

text \<open>
  A defaults template: a dict whose \<^verbatim>\<open>sp\<close> and \<^verbatim>\<open>security\<close> entries, where present, are
  dicts. Its other entries are arbitrary. On any other value the method raises
  (\<^verbatim>\<open>AttributeError\<close> from \<^verbatim>\<open>setdefault\<close>, \<^verbatim>\<open>TypeError\<close> from \<^verbatim>\<open>**\<close>).
\<close>

definition template :: "heap \<Rightarrow> val \<Rightarrow> bool" where
  "template h d = (is_dict h d \<and> section_ok h d ''sp'' \<and> section_ok h d ''security'')"

text \<open>
  The template does not contain itself: no object reachable from it refers to its
  top-level dict. Every finite nesting of dicts and lists is so, whether or not its
  parts are shared.
\<close>

definition self_free :: "heap \<Rightarrow> val \<Rightarrow> bool" where
  "self_free h v =
     (case v of
        VRef d \<Rightarrow> list_all (\<lambda>a. d \<notin> set (refs_of_obj (h ! a))) (reach h [d] [])
      | _ \<Rightarrow> True)"

section \<open>Reading a result\<close>

text \<open>The entry \<open>k\<close> of the dict a call returns, the keys of that dict, and the keys of
  its entry \<open>k\<close>; nothing when the call raises.\<close>

definition section_of :: "error + tree \<Rightarrow> string \<Rightarrow> tree option" where
  "section_of r k = (case r of Inl e \<Rightarrow> None | Inr t \<Rightarrow> tree_get t k)"

definition top_keys :: "error + tree \<Rightarrow> string list" where
  "top_keys r = (case r of Inl e \<Rightarrow> [] | Inr t \<Rightarrow> tree_keys t)"

definition section_keys :: "error + tree \<Rightarrow> string \<Rightarrow> string list" where
  "section_keys r k = (case section_of r k of None \<Rightarrow> [] | Some t \<Rightarrow> tree_keys t)"

text \<open>Several calls in a row on the same defaults, each in the store the one before
  leaves.\<close>

fun run_calls :: "provider list \<Rightarrow> val \<Rightarrow> heap \<Rightarrow> heap" where
  "run_calls [] defaults h = h"
| "run_calls (self # rest) defaults h =
     run_calls rest defaults (fst (get_provider_config self defaults h))"

section \<open>Example inputs\<close>

text \<open>
  The provider of scenario A of the specification, and its variants B (the same text
  as signing and as encryption certificate) and C (two signing certificates).
\<close>

definition scenario_A :: provider where
  "scenario_A =
     \<lparr> name = ''example'',
       idp_x509_signing_certificates = [''CERTA''],
       idp_x509_encryption_certificates = [],
       idp_issuer = ''https://idp.example/metadata'',
       idp_sso_url = ''https://idp.example/sso'',
       idp_sso_binding = ''HTTP-POST'',
       nameidformat = ''unspecified'',
       sp_acs_binding = ''HTTP-POST'',
       debug = False,
       lowercase_urlencoding = False,
       idp_initiated_auth = False,
       sec_want_messages_signed = True,
       sec_want_assertions_signed = False,
       sec_want_assertions_encrypted = False \<rparr>"

definition scenario_B :: provider where
  "scenario_B = scenario_A \<lparr> idp_x509_encryption_certificates := [''CERTA''] \<rparr>"

definition scenario_C :: provider where
  "scenario_C = scenario_A \<lparr> idp_x509_signing_certificates := [''CERTA'', ''CERTB''] \<rparr>"

text \<open>
  A store with the defaults
  \<^verbatim>\<open>{"sp": {"strict": True}, "idp": {"entityId": "old", "extra": 1}, "custom": "x"}\<close>
  at address 2: no \<^verbatim>\<open>security\<close> entry, an \<^verbatim>\<open>idp\<close> entry, one key of its own.
\<close>

definition store0 :: heap where
  "store0 =
     [ODict [(''strict'', VBool True)],
      ODict [(''entityId'', VStr ''old''), (''extra'', VInt 1)],
      ODict [(''sp'', VRef 0), (''idp'', VRef 1), (''custom'', VStr ''x'')]]"

text \<open>
  A store with the defaults
  \<^verbatim>\<open>{"security": {"wantAssertionsSigned": True, "signatureAlgorithm": "rsa-sha256"},
    "strict": True}\<close>
  at address 1: a \<^verbatim>\<open>security\<close> entry and no \<^verbatim>\<open>sp\<close> entry.
\<close>

definition store1 :: heap where
  "store1 =
     [ODict [(''wantAssertionsSigned'', VBool True), (''signatureAlgorithm'', VStr ''rsa-sha256'')],
      ODict [(''security'', VRef 0), (''strict'', VBool True)]]"

text \<open>
  A store whose defaults dict, at address 1, contains itself:
  \<^verbatim>\<open>d = {"sp": {}}; d["sp"]["parent"] = d\<close>.
\<close>

definition store_cyclic :: heap where
  "store_cyclic =
     [ODict [(''parent'', VRef 1)],
      ODict [(''sp'', VRef 0)]]"

section \<open>Notions of the proofs\<close>

text \<open>
  The items that the method writes, by the literals of lines 176-206, as items of the
  store and as trees.
\<close>

definition cert_entry :: "provider \<Rightarrow> string \<times> tree" where
  "cert_entry self =
     (case idp_certificates_of (certs_of self) of
        Inr [(k, Single c)] \<Rightarrow> (k, TStr c)
      | Inr [(k, Multi cs)] \<Rightarrow> (k, TDict (map (\<lambda>kv. (fst kv, TList (map TStr (snd kv)))) cs))
      | _ \<Rightarrow> ([], TBad))"

definition idp_tree :: "provider \<Rightarrow> tree" where
  "idp_tree self =
     TDict [(''entityId'', TStr (idp_issuer self)),
            (''singleSignOnService'',
               TDict [(''url'', TStr (idp_sso_url self)), (''binding'', TStr (idp_sso_binding self))]),
            cert_entry self]"

definition sp_literal :: "provider \<Rightarrow> val \<Rightarrow> (string \<times> val) list" where
  "sp_literal self acs =
     [(''entityId'', VStr ''''), (''NameIDFormat'', VStr (nameidformat self)),
      (''assertionConsumerService'', acs)]"

definition acs_literal :: "provider \<Rightarrow> (string \<times> val) list" where
  "acs_literal self = [(''url'', VStr ''''), (''binding'', VStr (sp_acs_binding self))]"

definition security_literal :: "provider \<Rightarrow> (string \<times> val) list" where
  "security_literal self =
     [(''wantMessagesSigned'', VBool (sec_want_messages_signed self)),
      (''wantAssertionsSigned'', VBool (sec_want_assertions_signed self)),
      (''wantAssertionsEncrypted'', VBool (sec_want_assertions_encrypted self))]"

definition out_items :: "provider \<Rightarrow> val \<Rightarrow> val \<Rightarrow> val \<Rightarrow> (string \<times> val) list" where
  "out_items self i s t =
     [(''idp'', i), (''sp'', s), (''security'', t),
      (''debug'', VBool (debug self)),
      (''lowercase_urlencoding'', VBool (lowercase_urlencoding self)),
      (''idp_initiated_auth'', VBool (idp_initiated_auth self))]"

definition flag_items :: "provider \<Rightarrow> (string \<times> tree) list" where
  "flag_items self =
     [(''debug'', TBool (debug self)),
      (''lowercase_urlencoding'', TBool (lowercase_urlencoding self)),
      (''idp_initiated_auth'', TBool (idp_initiated_auth self))]"

definition sp_overlay :: "provider \<Rightarrow> (string \<times> tree) list" where
  "sp_overlay self =
     [(''entityId'', TStr ''''), (''NameIDFormat'', TStr (nameidformat self)),
      (''assertionConsumerService'',
         TDict [(''url'', TStr ''''), (''binding'', TStr (sp_acs_binding self))])]"

definition security_overlay :: "provider \<Rightarrow> (string \<times> tree) list" where
  "security_overlay self =
     [(''wantMessagesSigned'', TBool (sec_want_messages_signed self)),
      (''wantAssertionsSigned'', TBool (sec_want_assertions_signed self)),
      (''wantAssertionsEncrypted'', TBool (sec_want_assertions_encrypted self))]"

text \<open>The items of the dict under key \<open>k\<close> of the dict \<open>d\<close>, and the items of a dict
  after \<^verbatim>\<open>setdefault\<close>.\<close>

definition section_items :: "heap \<Rightarrow> val \<Rightarrow> string \<Rightarrow> (string \<times> val) list" where
  "section_items h d k = (case map_of (dict_items h d) k of None \<Rightarrow> [] | Some v \<Rightarrow> dict_items h v)"

definition with_default :: "(string \<times> val) list \<Rightarrow> string \<Rightarrow> val \<Rightarrow> (string \<times> val) list" where
  "with_default kvs k v = (if map_of kvs k = None then kvs @ [(k, v)] else kvs)"

text \<open>
  \<open>frame n h h'\<close>: the store \<open>h'\<close> extends \<open>h\<close> and agrees with it on the first \<open>n\<close>
  objects; \<open>outside n v\<close>: the value \<open>v\<close> is not a reference to one of them.
\<close>

definition frame :: "nat \<Rightarrow> heap \<Rightarrow> heap \<Rightarrow> bool" where
  "frame n h h' = (n \<le> length h \<and> length h \<le> length h' \<and> take n h' = take n h)"

definition outside :: "nat \<Rightarrow> val \<Rightarrow> bool" where
  "outside n v = (case v of VRef a \<Rightarrow> n \<le> a | _ \<Rightarrow> True)"

section \<open>Dicts as association lists\<close>

text \<open>
  Setting an item and overlaying commute with a map over the values, and are the
  update and the override of the lookup.
\<close>

lemma map_of_dict_setitem: "map_of (dict_setitem d k v) = (map_of d)(k \<mapsto> v)"
  by (induction d k v rule: dict_setitem.induct) (auto simp: fun_eq_iff)

lemma map_dict_setitem:
  "map (\<lambda>kv. (fst kv, f (snd kv))) (dict_setitem d k v) =
   dict_setitem (map (\<lambda>kv. (fst kv, f (snd kv))) d) k (f v)"
  by (induction d k v rule: dict_setitem.induct) auto

lemma map_dict_update:
  "map (\<lambda>kv. (fst kv, f (snd kv))) (dict_update a b) =
   dict_update (map (\<lambda>kv. (fst kv, f (snd kv))) a) (map (\<lambda>kv. (fst kv, f (snd kv))) b)"
  by (induction a b rule: dict_update.induct) (auto simp: map_dict_setitem)

lemma map_of_overlay3:
  "map_of (dict_update a [(k1, v1), (k2, v2), (k3, v3)]) k =
     (if k = k3 then Some v3 else if k = k2 then Some v2 else if k = k1 then Some v1
      else map_of a k)"
  by (simp add: map_of_dict_setitem)

lemma map_of_rename:
  "map_of (map (\<lambda>kv. (fst kv, f (snd kv))) kvs) k = map_option f (map_of kvs k)"
  by (induction kvs) auto

lemma map_of_with_default: "k' \<noteq> k \<Longrightarrow> map_of (with_default kvs k v) k' = map_of kvs k'"
  by (simp add: with_default_def map_add_def split: option.splits)

lemma ref_in_refs_of_obj: "map_of kvs k = Some (VRef a) \<Longrightarrow> a \<in> set (refs_of_obj (ODict kvs))"
  by (force simp: refs_of_obj_def dest: map_of_SomeD)

section \<open>Dicts in the store\<close>

text \<open>
  Reading a dict is not affected by objects added to the store, nor by the update of
  another dict.
\<close>

lemma is_dictE:
  assumes "is_dict h v"
  obtains a kvs where "v = VRef a" "a < length h" "h ! a = ODict kvs"
  using assms by (auto simp: is_dict_def obj_at_def split: val.splits option.splits obj.splits if_splits)

lemma is_dictI: "a < length h \<Longrightarrow> h ! a = ODict kvs \<Longrightarrow> is_dict h (VRef a)"
  by (simp add: is_dict_def obj_at_def)

lemma dict_items_dict: "a < length h \<Longrightarrow> h ! a = ODict kvs \<Longrightarrow> dict_items h (VRef a) = kvs"
  by (simp add: dict_items_def mapping_items_def obj_at_def)

lemma is_dict_append: "is_dict h v \<Longrightarrow> is_dict (h @ X) v"
  by (erule is_dictE) (simp add: is_dict_def obj_at_def nth_append)

lemma dict_items_append: "is_dict h v \<Longrightarrow> dict_items (h @ X) v = dict_items h v"
  by (erule is_dictE) (simp add: dict_items_def mapping_items_def obj_at_def nth_append)

lemma section_ok_append: "is_dict h d \<Longrightarrow> section_ok h d k \<Longrightarrow> section_ok (h @ X) d k"
  by (auto simp: section_ok_def dict_items_append is_dict_append split: option.splits)

lemma section_items_append:
  "is_dict h d \<Longrightarrow> section_ok h d k \<Longrightarrow> section_items (h @ X) d k = section_items h d k"
  by (auto simp: section_ok_def section_items_def dict_items_append split: option.splits)

lemma is_dict_update:
  assumes "is_dict h v"
  shows "is_dict (h[c := ODict x]) v"
proof -
  from assms obtain a kvs where a: "v = VRef a" "a < length h" "h ! a = ODict kvs"
    by (rule is_dictE)
  then show ?thesis
    by (cases "c = a") (simp_all add: is_dict_def obj_at_def)
qed

lemma section_ok_update:
  assumes c: "c < length H" "H ! c = ODict citems" and ok: "section_ok H (VRef c) k'"
    and k: "k' \<noteq> k"
  shows "section_ok (H[c := ODict (with_default citems k e)] @ Y) (VRef c) k'"
proof -
  have 1: "dict_items (H[c := ODict (with_default citems k e)] @ Y) (VRef c)
             = with_default citems k e"
    using c(1) by (intro dict_items_dict) (simp_all add: nth_append)
  show ?thesis
  proof (cases "map_of citems k'")
    case None
    with k show ?thesis by (simp add: section_ok_def 1 map_of_with_default)
  next
    case (Some v)
    with ok c have "is_dict H v" by (simp add: section_ok_def dict_items_dict)
    then have "is_dict (H[c := ODict (with_default citems k e)] @ Y) v"
      by (intro is_dict_append is_dict_update)
    with Some k show ?thesis by (simp add: section_ok_def 1 map_of_with_default)
  qed
qed

lemma section_items_update:
  assumes c: "c < length H" "H ! c = ODict citems" and ok: "section_ok H (VRef c) k'"
    and k: "k' \<noteq> k" and nc: "map_of citems k' \<noteq> Some (VRef c)"
  shows "section_items (H[c := ODict (with_default citems k e)] @ Y) (VRef c) k'
           = section_items H (VRef c) k'"
proof -
  have 1: "dict_items (H[c := ODict (with_default citems k e)] @ Y) (VRef c)
             = with_default citems k e"
    using c(1) by (intro dict_items_dict) (simp_all add: nth_append)
  have 2: "dict_items H (VRef c) = citems" using c by (rule dict_items_dict)
  show ?thesis
  proof (cases "map_of citems k'")
    case None
    with k show ?thesis by (simp add: section_items_def 1 2 map_of_with_default)
  next
    case (Some v)
    with ok c have "is_dict H v" by (simp add: section_ok_def dict_items_dict)
    then obtain a kvs where a: "v = VRef a" "a < length H" "H ! a = ODict kvs"
      by (rule is_dictE)
    with nc Some have "a \<noteq> c" by auto
    with a c have "dict_items (H[c := ODict (with_default citems k e)] @ Y) v = dict_items H v"
      by (simp add: dict_items_def mapping_items_def obj_at_def nth_append)
    with Some k show ?thesis by (simp add: section_items_def 1 2 map_of_with_default)
  qed
qed

lemma wf_heap_refs: "wf_heap h \<Longrightarrow> a < length h \<Longrightarrow> b \<in> set (refs_of_obj (h ! a)) \<Longrightarrow> b < length h"
  by (auto simp: wf_heap_def list_all_iff)

lemma in_store_refs: "in_store h v \<Longrightarrow> set (refs_of_val v) \<subseteq> {..<length h}"
  by (auto simp: in_store_def list_all_iff)

section \<open>Snapshots of renamed structures\<close>

text \<open>
  If every object of a set \<open>S\<close>, closed under membership, has its renamed copy in a
  second store, a value over \<open>S\<close> and its renaming unfold to the same tree at every depth.
\<close>

lemma view_dict:
  "a < length h \<Longrightarrow> h ! a = ODict kvs \<Longrightarrow>
     view (Suc n) h (VRef a) = TDict (map (\<lambda>kv. (fst kv, view n h (snd kv))) kvs)"
  by (simp add: obj_at_def)

lemma map_view_VStr: "map (view n h) (map VStr xs) = map TStr xs"
  by (induction xs) auto

lemma rename_val_id: "rename_val (\<lambda>a. a) v = v"
  by (cases v) auto

lemma rename_obj_id: "rename_obj (\<lambda>a. a) ob = ob"
  by (cases ob) (simp_all add: rename_val_id map_idI)

lemma view_sim:
  assumes S: "\<forall>a\<in>S. a < length h \<and> r a < length h' \<and> h' ! r a = rename_obj r (h ! a)
                \<and> set (refs_of_obj (h ! a)) \<subseteq> S"
  shows "set (refs_of_val v) \<subseteq> S \<Longrightarrow> view n h' (rename_val r v) = view n h v"
proof (induction n arbitrary: v)
  case 0
  then show ?case by (cases v) auto
next
  case (Suc n)
  show ?case
  proof (cases v)
    case (VRef a)
    with Suc.prems have a: "a \<in> S" by simp
    with S have 1: "a < length h" "r a < length h'" "h' ! r a = rename_obj r (h ! a)"
      and 2: "set (refs_of_obj (h ! a)) \<subseteq> S" by auto
    have IH: "\<And>w. w \<in> set (vals_of_obj (h ! a)) \<Longrightarrow> view n h' (rename_val r w) = view n h w"
    proof -
      fix w assume "w \<in> set (vals_of_obj (h ! a))"
      then have "set (refs_of_val w) \<subseteq> set (refs_of_obj (h ! a))"
        by (auto simp: refs_of_obj_def)
      with 2 show "view n h' (rename_val r w) = view n h w"
        by (intro Suc.IH) auto
    qed
    show ?thesis
    proof (cases "h ! a")
      case (ODict kvs)
      with IH have "\<And>kv. kv \<in> set kvs \<Longrightarrow> view n h' (rename_val r (snd kv)) = view n h (snd kv)"
        by auto
      with ODict 1 VRef show ?thesis by (simp add: obj_at_def comp_def)
    next
      case (OList vs)
      with IH have "\<And>w. w \<in> set vs \<Longrightarrow> view n h' (rename_val r w) = view n h w"
        by auto
      with OList 1 VRef show ?thesis by (simp add: obj_at_def comp_def)
    qed
  qed auto
qed

section \<open>The walk\<close>

text \<open>
  The walk visits the root first, stays inside the store, and returns a set closed
  under membership.
\<close>

lemma reach_prefix: "\<exists>ys. reach h todo vis = vis @ ys"
  by (induction h todo vis rule: reach.induct) auto

lemma reach_root: "d < length h \<Longrightarrow> \<exists>R'. reach h [d] [] = d # R'"
  using reach_prefix [of h "refs_of_obj (h ! d) @ []" "[d]"] by auto

lemma reach_valid:
  "a \<in> set (reach h todo vis) \<Longrightarrow> a \<in> set vis \<or> a < length h"
  by (induction h todo vis rule: reach.induct) (auto split: if_splits)

lemma reach_closed:
  assumes "\<forall>a\<in>set vis. \<forall>b\<in>set (refs_of_obj (h ! a)). b < length h \<longrightarrow> b \<in> set vis \<union> set todo"
  shows "\<forall>a\<in>set (reach h todo vis). \<forall>b\<in>set (refs_of_obj (h ! a)).
           b < length h \<longrightarrow> b \<in> set (reach h todo vis)"
  using assms
proof (induction h todo vis rule: reach.induct)
  case (1 h vis)
  then show ?case by simp
next
  case (2 h c todo vis)
  show ?case
  proof (cases "c \<in> set vis \<or> length h \<le> c")
    case True
    have "b \<in> set vis \<union> set todo"
      if "a \<in> set vis" "b \<in> set (refs_of_obj (h ! a))" "b < length h" for a b
    proof -
      from 2(3) that have "b \<in> set vis \<union> set (c # todo)" by blast
      moreover have "b \<noteq> c \<or> c \<in> set vis" using True that(3) by auto
      ultimately show ?thesis by auto
    qed
    then have "\<forall>a\<in>set vis. \<forall>b\<in>set (refs_of_obj (h ! a)). b < length h \<longrightarrow> b \<in> set vis \<union> set todo"
      by blast
    with 2(1) True show ?thesis by simp
  next
    case False
    have "\<forall>a\<in>set (vis @ [c]). \<forall>b\<in>set (refs_of_obj (h ! a)). b < length h \<longrightarrow>
            b \<in> set (vis @ [c]) \<union> set (refs_of_obj (h ! c) @ todo)"
      using 2(3) by auto
    with 2(2) False show ?thesis by simp
  qed
qed

lemma reach_root_closed:
  "a \<in> set (reach h [d] []) \<Longrightarrow> b \<in> set (refs_of_obj (h ! a)) \<Longrightarrow> b < length h
     \<Longrightarrow> b \<in> set (reach h [d] [])"
  using reach_closed [of "[]" h "[d]"] by (simp del: reach.simps)

lemma reach_root_valid: "a \<in> set (reach h [d] []) \<Longrightarrow> a < length h"
  using reach_valid [of a h "[d]" "[]"] by (simp del: reach.simps)

lemma reach_root_mem: "d < length h \<Longrightarrow> d \<in> set (reach h [d] [])"
  using reach_root [of d h] by (auto simp del: reach.simps)

lemma self_free_refs:
  "self_free h (VRef d) \<Longrightarrow> a \<in> set (reach h [d] []) \<Longrightarrow> d \<notin> set (refs_of_obj (h ! a))"
  by (auto simp: self_free_def list_all_iff simp del: reach.simps)

lemma inner_closed:
  assumes wf: "wf_heap h" and sf: "self_free h (VRef d)"
    and a: "a \<in> set (reach h [d] [])"
  shows "set (refs_of_obj (h ! a)) \<subseteq> set (reach h [d] []) - {d}"
proof
  fix b assume b: "b \<in> set (refs_of_obj (h ! a))"
  have al: "a < length h" using a by (rule reach_root_valid)
  from wf al b have "b < length h" by (rule wf_heap_refs)
  with a b have "b \<in> set (reach h [d] [])" by (rule reach_root_closed)
  moreover from sf a b have "b \<noteq> d" by (auto dest: self_free_refs simp del: reach.simps)
  ultimately show "b \<in> set (reach h [d] []) - {d}" by simp
qed

section \<open>The copy\<close>

text \<open>
  The copy of a template is a template at the first new address; its sections hold the
  renamed items of the original sections and unfold to the same trees.
\<close>

lemma index_of_less: "b \<in> set R \<Longrightarrow> index_of R b < length R"
  by (induction R) auto

lemma nth_index_of: "b \<in> set R \<Longrightarrow> R ! index_of R b = b"
  by (induction R) auto

lemma length_copies: "length (copies h R) = length R"
  by (simp add: copies_def)

lemma copy_addr_less: "b \<in> set R \<Longrightarrow> copy_addr h R b < length h + length R"
  by (simp add: copy_addr_def index_of_less)

lemma copies_nth:
  "b \<in> set R \<Longrightarrow> (h @ copies h R) ! copy_addr h R b = rename_obj (copy_addr h R) (h ! b)"
  by (simp add: copy_addr_def copies_def index_of_less nth_index_of)

lemma deepcopy_ref:
  assumes "d < length h"
  shows "deepcopy (VRef d) h = (h @ copies h (reach h [d] []), VRef (length h))"
proof -
  from assms obtain R' where "reach h [d] [] = d # R'" using reach_root by blast
  then show ?thesis by (simp add: deepcopy_def Let_def copy_addr_def del: reach.simps)
qed

lemma copy_is_dict:
  assumes "b \<in> set R" "h ! b = ODict kvs"
  shows "is_dict (h @ copies h R) (VRef (copy_addr h R b))"
    and "dict_items (h @ copies h R) (VRef (copy_addr h R b))
           = map (\<lambda>kv. (fst kv, rename_val (copy_addr h R) (snd kv))) kvs"
proof -
  have 1: "copy_addr h R b < length (h @ copies h R)"
    using assms(1) by (simp add: copy_addr_less length_copies)
  have 2: "(h @ copies h R) ! copy_addr h R b
             = ODict (map (\<lambda>kv. (fst kv, rename_val (copy_addr h R) (snd kv))) kvs)"
    using assms by (simp add: copies_nth)
  show "is_dict (h @ copies h R) (VRef (copy_addr h R b))"
    using 1 2 by (rule is_dictI)
  show "dict_items (h @ copies h R) (VRef (copy_addr h R b))
           = map (\<lambda>kv. (fst kv, rename_val (copy_addr h R) (snd kv))) kvs"
    using 1 2 by (rule dict_items_dict)
qed

lemma copy_section_ok:
  assumes d: "d < length h" "h ! d = ODict items" and ok: "section_ok h (VRef d) k"
  shows "section_ok (h @ copies h (reach h [d] [])) (VRef (length h)) k"
proof -
  let ?R = "reach h [d] []"
  have dR: "d \<in> set ?R" using d(1) by (rule reach_root_mem)
  have c0: "copy_addr h ?R d = length h"
    using reach_root [OF d(1)] by (auto simp: copy_addr_def simp del: reach.simps)
  have items: "dict_items (h @ copies h ?R) (VRef (length h))
                 = map (\<lambda>kv. (fst kv, rename_val (copy_addr h ?R) (snd kv))) items"
    using copy_is_dict(2) [OF dR d(2)] c0 by simp
  show ?thesis
  proof (cases "map_of items k")
    case None
    then show ?thesis by (simp add: section_ok_def items map_of_rename del: reach.simps)
  next
    case (Some v)
    with ok d have "is_dict h v" by (simp add: section_ok_def dict_items_dict)
    then obtain a kvs where a: "v = VRef a" "a < length h" "h ! a = ODict kvs"
      by (rule is_dictE)
    have "a \<in> set (refs_of_obj (h ! d))"
      using Some a(1) d(2) by (simp add: ref_in_refs_of_obj)
    from dR this a(2) have "a \<in> set ?R" by (rule reach_root_closed)
    then have "is_dict (h @ copies h ?R) (VRef (copy_addr h ?R a))"
      using a(3) by (rule copy_is_dict(1))
    with Some a(1) show ?thesis
      by (simp add: section_ok_def items map_of_rename del: reach.simps)
  qed
qed

lemma copy_section_items:
  assumes d: "d < length h" "h ! d = ODict items" and ok: "section_ok h (VRef d) k"
  shows "section_items (h @ copies h (reach h [d] [])) (VRef (length h)) k
           = map (\<lambda>kv. (fst kv, rename_val (copy_addr h (reach h [d] [])) (snd kv)))
                 (section_items h (VRef d) k)"
proof -
  let ?R = "reach h [d] []"
  have dR: "d \<in> set ?R" using d(1) by (rule reach_root_mem)
  have c0: "copy_addr h ?R d = length h"
    using reach_root [OF d(1)] by (auto simp: copy_addr_def simp del: reach.simps)
  have items: "dict_items (h @ copies h ?R) (VRef (length h))
                 = map (\<lambda>kv. (fst kv, rename_val (copy_addr h ?R) (snd kv))) items"
    using copy_is_dict(2) [OF dR d(2)] c0 by simp
  have items0: "dict_items h (VRef d) = items" using d by (rule dict_items_dict)
  show ?thesis
  proof (cases "map_of items k")
    case None
    then show ?thesis
      by (simp add: section_items_def items items0 map_of_rename del: reach.simps)
  next
    case (Some v)
    with ok d have "is_dict h v" by (simp add: section_ok_def dict_items_dict)
    then obtain a kvs where a: "v = VRef a" "a < length h" "h ! a = ODict kvs"
      by (rule is_dictE)
    have "a \<in> set (refs_of_obj (h ! d))"
      using Some a(1) d(2) by (simp add: ref_in_refs_of_obj)
    from dR this a(2) have "a \<in> set ?R" by (rule reach_root_closed)
    then have "dict_items (h @ copies h ?R) (VRef (copy_addr h ?R a))
                 = map (\<lambda>kv. (fst kv, rename_val (copy_addr h ?R) (snd kv))) kvs"
      using a(3) by (rule copy_is_dict(2))
    moreover have "dict_items h (VRef a) = kvs" using a(2,3) by (rule dict_items_dict)
    ultimately show ?thesis using Some a(1)
      by (simp add: section_items_def items items0 map_of_rename del: reach.simps)
  qed
qed

lemma sub_items_view:
  assumes d: "d < length h" "h ! d = ODict items" and ok: "section_ok h (VRef d) k"
  shows "sub_items (view (n + 4) h (VRef d)) k
           = map (\<lambda>kv. (fst kv, view (n + 2) h (snd kv))) (section_items h (VRef d) k)"
proof -
  have n4: "n + 4 = Suc (n + 3)" "n + 3 = Suc (n + 2)" by simp_all
  have items0: "dict_items h (VRef d) = items" using d by (rule dict_items_dict)
  have get: "tree_get (view (n + 4) h (VRef d)) k = map_option (view (n + 3) h) (map_of items k)"
    unfolding n4(1) view_dict [OF d] by (simp add: tree_get_def map_of_rename del: view.simps(6))
  show ?thesis
  proof (cases "map_of items k")
    case None
    then show ?thesis by (simp add: sub_items_def get section_items_def items0)
  next
    case (Some v)
    with ok d have "is_dict h v" by (simp add: section_ok_def dict_items_dict)
    then obtain a kvs where a: "v = VRef a" "a < length h" "h ! a = ODict kvs"
      by (rule is_dictE)
    have "dict_items h (VRef a) = kvs" using a(2,3) by (rule dict_items_dict)
    moreover have "tree_items (view (n + 3) h (VRef a))
                     = map (\<lambda>kv. (fst kv, view (n + 2) h (snd kv))) kvs"
      unfolding n4(2) view_dict [OF a(2,3)] by simp
    ultimately show ?thesis using Some a(1)
      by (simp add: sub_items_def get section_items_def items0 del: view.simps(6))
  qed
qed

lemma copy_view:
  assumes wf: "wf_heap h" and sf: "self_free h (VRef d)" and d: "d < length h"
    and fr: "length (h @ copies h (reach h [d] [])) \<le> length hf"
      "\<forall>a<length (h @ copies h (reach h [d] [])). a \<noteq> length h \<longrightarrow>
          hf ! a = (h @ copies h (reach h [d] [])) ! a"
    and v: "set (refs_of_val v) \<subseteq> set (reach h [d] []) - {d}"
  shows "view n hf (rename_val (copy_addr h (reach h [d] [])) v) = view n h v"
proof (rule view_sim [where S = "set (reach h [d] []) - {d}"])
  let ?R = "reach h [d] []"
  show "\<forall>a\<in>set ?R - {d}. a < length h \<and> copy_addr h ?R a < length hf
          \<and> hf ! copy_addr h ?R a = rename_obj (copy_addr h ?R) (h ! a)
          \<and> set (refs_of_obj (h ! a)) \<subseteq> set ?R - {d}"
  proof
    fix a assume "a \<in> set ?R - {d}"
    then have a: "a \<in> set ?R" "a \<noteq> d" by auto
    have 1: "a < length h" using a(1) by (rule reach_root_valid)
    have lt: "copy_addr h ?R a < length (h @ copies h ?R)"
      using a(1) by (simp add: copy_addr_less length_copies del: reach.simps)
    with fr(1) have 2: "copy_addr h ?R a < length hf" by simp
    obtain R' where R': "?R = d # R'" using reach_root [OF d] by blast
    have ne: "copy_addr h ?R a \<noteq> length h"
      unfolding R' using a(2) by (simp add: copy_addr_def)
    from fr(2) lt ne have "hf ! copy_addr h ?R a = (h @ copies h ?R) ! copy_addr h ?R a"
      by blast
    also have "\<dots> = rename_obj (copy_addr h ?R) (h ! a)" using a(1) by (rule copies_nth)
    finally have 3: "hf ! copy_addr h ?R a = rename_obj (copy_addr h ?R) (h ! a)" .
    have 4: "set (refs_of_obj (h ! a)) \<subseteq> set ?R - {d}"
      using wf sf a(1) by (rule inner_closed)
    from 1 2 3 4 show "a < length h \<and> copy_addr h ?R a < length hf
          \<and> hf ! copy_addr h ?R a = rename_obj (copy_addr h ?R) (h ! a)
          \<and> set (refs_of_obj (h ! a)) \<subseteq> set ?R - {d}" by blast
  qed
  show "set (refs_of_val v) \<subseteq> set ?R - {d}" by (rule v)
qed

lemma section_value_refs:
  assumes wf: "wf_heap h" and sf: "self_free h (VRef d)"
    and d: "d < length h" "h ! d = ODict items" and ok: "section_ok h (VRef d) k"
    and kv: "kv \<in> set (section_items h (VRef d) k)"
  shows "set (refs_of_val (snd kv)) \<subseteq> set (reach h [d] []) - {d}"
proof -
  let ?R = "reach h [d] []"
  have dR: "d \<in> set ?R" using d(1) by (rule reach_root_mem)
  have items0: "dict_items h (VRef d) = items" using d by (rule dict_items_dict)
  from kv obtain v where v: "map_of items k = Some v" "kv \<in> set (dict_items h v)"
    by (cases "map_of items k") (auto simp: section_items_def items0)
  with ok d have "is_dict h v" by (simp add: section_ok_def dict_items_dict)
  then obtain a kvs where a: "v = VRef a" "a < length h" "h ! a = ODict kvs"
    by (rule is_dictE)
  have "a \<in> set (refs_of_obj (h ! d))"
    using v(1) a(1) d(2) by (simp add: ref_in_refs_of_obj)
  moreover have "set (refs_of_obj (h ! d)) \<subseteq> set ?R - {d}"
    using wf sf dR by (rule inner_closed)
  ultimately have aR: "a \<in> set ?R" by auto
  have "dict_items h (VRef a) = kvs" using a(2,3) by (rule dict_items_dict)
  with v(2) a(1) have "kv \<in> set kvs" by simp
  then have "set (refs_of_val (snd kv)) \<subseteq> set (refs_of_obj (h ! a))"
    by (auto simp: a(3) refs_of_obj_def)
  also have "\<dots> \<subseteq> set ?R - {d}" using wf sf aR by (rule inner_closed)
  finally show ?thesis .
qed

lemma copy_section_not_self:
  assumes sf: "self_free h (VRef d)"
    and d: "d < length h" "h ! d = ODict items" and ok: "section_ok h (VRef d) k"
  shows "map_of (dict_items (h @ copies h (reach h [d] [])) (VRef (length h))) k
           \<noteq> Some (VRef (length h))"
proof -
  let ?R = "reach h [d] []"
  have dR: "d \<in> set ?R" using d(1) by (rule reach_root_mem)
  obtain R' where R': "?R = d # R'" using reach_root [OF d(1)] by blast
  have c0: "copy_addr h ?R d = length h"
    unfolding R' by (simp add: copy_addr_def)
  have items: "dict_items (h @ copies h ?R) (VRef (length h))
                 = map (\<lambda>kv. (fst kv, rename_val (copy_addr h ?R) (snd kv))) items"
    using copy_is_dict(2) [OF dR d(2)] c0 by simp
  show ?thesis
  proof (cases "map_of items k")
    case None
    then show ?thesis by (simp add: items map_of_rename del: reach.simps)
  next
    case (Some v)
    with ok d have "is_dict h v" by (simp add: section_ok_def dict_items_dict)
    then obtain a kvs where a: "v = VRef a" "a < length h" "h ! a = ODict kvs"
      by (rule is_dictE)
    have "a \<in> set (refs_of_obj (h ! d))"
      using Some a(1) d(2) by (simp add: ref_in_refs_of_obj)
    with sf dR have "a \<noteq> d" by (auto dest: self_free_refs simp del: reach.simps)
    then have "copy_addr h ?R a \<noteq> length h"
      unfolding R' by (simp add: copy_addr_def)
    with Some a(1) show ?thesis by (simp add: items map_of_rename del: reach.simps)
  qed
qed

section \<open>The certificate field\<close>

text \<open>
  The condition of lines 153-166 holds exactly when each list has one text and the two
  texts are equal.
\<close>

lemma idp_certificates_of_certs:
  "idp_certificates_of (certs_of self) =
     Inr [if length (idp_x509_signing_certificates self) = 1
             \<and> length (idp_x509_encryption_certificates self) = 1
             \<and> hd (idp_x509_signing_certificates self) = hd (idp_x509_encryption_certificates self)
          then (''x509cert'', Single (hd (idp_x509_signing_certificates self)))
          else (''x509certMulti'', Multi (certs_of self))]"
  by (cases "idp_x509_signing_certificates self"; cases "idp_x509_encryption_certificates self")
     (auto simp: idp_certificates_of_def certs_of_def only_role_single_def both_roles_same_def
        has_one_def first_of_def emit_single_def single_role_def split: list.splits)

lemma cert_entry_cases:
  "cert_entry self =
     (if length (idp_x509_signing_certificates self) = 1
           \<and> length (idp_x509_encryption_certificates self) = 1
           \<and> hd (idp_x509_signing_certificates self) = hd (idp_x509_encryption_certificates self)
      then (''x509cert'', TStr (hd (idp_x509_signing_certificates self)))
      else (''x509certMulti'',
             TDict [(''encryption'', TList (map TStr (idp_x509_encryption_certificates self))),
                    (''signing'', TList (map TStr (idp_x509_signing_certificates self)))]))"
  unfolding cert_entry_def idp_certificates_of_certs by (simp add: certs_of_def)

lemma first_of_signing:
  "length (idp_x509_signing_certificates self) = 1 \<Longrightarrow>
     first_of (certs_of self) ''signing'' = Inr (hd (idp_x509_signing_certificates self))"
  by (cases "idp_x509_signing_certificates self") (simp_all add: first_of_def certs_of_def)

section \<open>The builders\<close>

text \<open>
  What each builder adds to the store and returns.
\<close>

lemma build_idp_single:
  "build_idp self [(''x509cert'', Single c)] h =
     (h @ [ODict [(''url'', VStr (idp_sso_url self)), (''binding'', VStr (idp_sso_binding self))],
           ODict [(''entityId'', VStr (idp_issuer self)),
                  (''singleSignOnService'', VRef (length h)),
                  (''x509cert'', VStr c)]],
      VRef (length h + 1))"
  by (simp add: build_idp_def alloc_def)

lemma build_idp_multi:
  "build_idp self [(''x509certMulti'', Multi [(''encryption'', E), (''signing'', S)])] h =
     (h @ [OList (map VStr E), OList (map VStr S),
           ODict [(''encryption'', VRef (length h)), (''signing'', VRef (length h + 1))],
           ODict [(''url'', VStr (idp_sso_url self)), (''binding'', VStr (idp_sso_binding self))],
           ODict [(''entityId'', VStr (idp_issuer self)),
                  (''singleSignOnService'', VRef (length h + 3)),
                  (''x509certMulti'', VRef (length h + 2))]],
      VRef (length h + 4))"
  by (simp add: build_idp_def alloc_def store_certs_def)

lemma build_idp_view:
  assumes "idp_certificates_of (certs_of self) = Inr flds"
  shows "\<exists>X. build_idp self flds h = (h @ X, VRef (length h + length X - 1)) \<and> X \<noteq> []
           \<and> (\<forall>n g Z. length g = length h \<longrightarrow>
                 view (n + 3) (g @ X @ Z) (VRef (length h + length X - 1)) = idp_tree self)"
proof (cases "length (idp_x509_signing_certificates self) = 1
             \<and> length (idp_x509_encryption_certificates self) = 1
             \<and> hd (idp_x509_signing_certificates self) = hd (idp_x509_encryption_certificates self)")
  case True
  with assms have f: "flds = [(''x509cert'', Single (hd (idp_x509_signing_certificates self)))]"
    by (simp add: idp_certificates_of_certs)
  have ce: "cert_entry self = (''x509cert'', TStr (hd (idp_x509_signing_certificates self)))"
    using assms f by (simp add: cert_entry_def)
  show ?thesis
    unfolding f build_idp_single
    by (rule exI [where x = "[ODict [(''url'', VStr (idp_sso_url self)), (''binding'', VStr (idp_sso_binding self))],
           ODict [(''entityId'', VStr (idp_issuer self)),
                  (''singleSignOnService'', VRef (length h)),
                  (''x509cert'', VStr (hd (idp_x509_signing_certificates self)))]]"])
       (simp add: obj_at_def nth_append idp_tree_def ce numeral_3_eq_3)
next
  case False
  have f: "flds = [(''x509certMulti'', Multi [(''encryption'', idp_x509_encryption_certificates self),
      (''signing'', idp_x509_signing_certificates self)])]"
    using assms False unfolding idp_certificates_of_certs
    by (auto simp: certs_of_def split: if_splits)
  have ce: "cert_entry self = (''x509certMulti'',
      TDict [(''encryption'', TList (map TStr (idp_x509_encryption_certificates self))),
             (''signing'', TList (map TStr (idp_x509_signing_certificates self)))])"
    using assms f by (simp add: cert_entry_def)
  show ?thesis
    unfolding f build_idp_multi
    by (rule exI [where x = "[OList (map VStr (idp_x509_encryption_certificates self)),
           OList (map VStr (idp_x509_signing_certificates self)),
           ODict [(''encryption'', VRef (length h)), (''signing'', VRef (length h + 1))],
           ODict [(''url'', VStr (idp_sso_url self)), (''binding'', VStr (idp_sso_binding self))],
           ODict [(''entityId'', VStr (idp_issuer self)),
                  (''singleSignOnService'', VRef (length h + 3)),
                  (''x509certMulti'', VRef (length h + 2))]]"])
       (simp add: obj_at_def nth_append idp_tree_def ce numeral_3_eq_3 map_view_VStr comp_def)
qed

lemma build_sp_eq:
  assumes c: "c < length H" "H ! c = ODict citems" and ok: "section_ok H (VRef c) ''sp''"
  shows "build_sp self (VRef c) H =
           (H[c := ODict (with_default citems ''sp'' (VRef (length H)))]
              @ [ODict [], ODict (acs_literal self),
                 ODict (dict_update (section_items H (VRef c) ''sp'')
                          (sp_literal self (VRef (length H + 1))))],
            Inr (VRef (length H + 2)))"
proof (cases "map_of citems ''sp''")
  case None
  with c show ?thesis
    by (simp add: build_sp_def alloc_def setdefault_def obj_at_def nth_append and_then_def
        unpack_def mapping_items_def with_default_def section_items_def dict_items_dict
        list_update_append acs_literal_def sp_literal_def)
next
  case (Some v)
  with ok c have "is_dict H v" by (simp add: section_ok_def dict_items_dict)
  then obtain a kvs where a: "v = VRef a" "a < length H" "H ! a = ODict kvs"
    by (rule is_dictE)
  have "H[c := ODict citems] = H" using c(2) [symmetric] by (simp add: list_update_id)
  with a c Some show ?thesis
    by (simp add: build_sp_def alloc_def setdefault_def obj_at_def nth_append and_then_def
        unpack_def mapping_items_def with_default_def section_items_def dict_items_dict
        acs_literal_def sp_literal_def list_update_id)
qed

lemma build_security_eq:
  assumes c: "c < length H" "H ! c = ODict citems" and ok: "section_ok H (VRef c) ''security''"
  shows "build_security self (VRef c) H =
           (H[c := ODict (with_default citems ''security'' (VRef (length H)))]
              @ [ODict [],
                 ODict (dict_update (section_items H (VRef c) ''security'') (security_literal self))],
            Inr (VRef (length H + 1)))"
proof (cases "map_of citems ''security''")
  case None
  with c show ?thesis
    by (simp add: build_security_def alloc_def setdefault_def obj_at_def nth_append and_then_def
        unpack_def mapping_items_def with_default_def section_items_def dict_items_dict
        list_update_append security_literal_def)
next
  case (Some v)
  with ok c have "is_dict H v" by (simp add: section_ok_def dict_items_dict)
  then obtain a kvs where a: "v = VRef a" "a < length H" "H ! a = ODict kvs"
    by (rule is_dictE)
  have "H[c := ODict citems] = H" using c(2) [symmetric] by (simp add: list_update_id)
  with a c Some show ?thesis
    by (simp add: build_security_def alloc_def setdefault_def obj_at_def nth_append and_then_def
        unpack_def mapping_items_def with_default_def section_items_def dict_items_dict
        security_literal_def list_update_id)
qed

lemma set_flags_eq:
  assumes "c < length H" "H ! c = ODict kvs"
  shows "set_flags self (VRef c) H =
     (H[c := ODict (dict_setitem (dict_setitem (dict_setitem kvs ''debug'' (VBool (debug self)))
                ''lowercase_urlencoding'' (VBool (lowercase_urlencoding self)))
                ''idp_initiated_auth'' (VBool (idp_initiated_auth self)))], Inr (VRef c))"
  using assms by (simp add: set_flags_def setitem_def obj_at_def and_then_def)

lemma set_flags_fresh:
  "set_flags self (VRef (length H)) (H @ [ODict [(''idp'', i), (''sp'', s), (''security'', t)]])
     = (H @ [ODict (out_items self i s t)], Inr (VRef (length H)))"
  using set_flags_eq [of "length H" "H @ [ODict [(''idp'', i), (''sp'', s), (''security'', t)]]"
      "[(''idp'', i), (''sp'', s), (''security'', t)]" self]
  by (simp add: out_items_def)

section \<open>The method on a template\<close>

text \<open>
  On a template the method returns; the store it leaves and the tree of its result.
\<close>

lemma run:
  assumes tmpl: "template h0 (VRef d)"
  defines "h1 \<equiv> h0 @ copies h0 (reach h0 [d] [])"
  shows "\<exists>hf out i s acs t ks.
     get_provider_config self (VRef d) h0 = (hf, Inr (VRef out))
     \<and> out < length hf \<and> hf ! out = ODict (out_items self (VRef i) (VRef s) (VRef t))
     \<and> (\<forall>n. view (n + 3) hf (VRef i) = idp_tree self)
     \<and> s < length hf
     \<and> hf ! s = ODict (dict_update (section_items h1 (VRef (length h0)) ''sp'')
                         (sp_literal self (VRef acs)))
     \<and> acs < length hf \<and> hf ! acs = ODict (acs_literal self)
     \<and> t < length hf \<and> hf ! t = ODict (dict_update ks (security_literal self))
     \<and> (map_of (dict_items h1 (VRef (length h0))) ''security'' \<noteq> Some (VRef (length h0))
          \<longrightarrow> ks = section_items h1 (VRef (length h0)) ''security'')
     \<and> length h1 \<le> length hf
     \<and> (\<forall>a<length h1. a \<noteq> length h0 \<longrightarrow> hf ! a = h1 ! a)"
proof -
  let ?n0 = "length h0"
  let ?R = "reach h0 [d] []"
  from tmpl have "is_dict h0 (VRef d)" by (simp add: template_def)
  then obtain items where d: "d < ?n0" "h0 ! d = ODict items"
    by (auto elim: is_dictE)
  from tmpl have ok0: "section_ok h0 (VRef d) ''sp''" "section_ok h0 (VRef d) ''security''"
    by (simp_all add: template_def)
  have dc: "deepcopy (VRef d) h0 = (h1, VRef ?n0)"
    using d(1) by (simp add: deepcopy_ref h1_def del: reach.simps)
  have dR: "d \<in> set ?R" using d(1) by (rule reach_root_mem)
  have c0: "copy_addr h0 ?R d = ?n0"
    using reach_root [OF d(1)] by (auto simp: copy_addr_def simp del: reach.simps)
  have cd: "is_dict h1 (VRef ?n0)"
    using copy_is_dict(1) [OF dR d(2)] c0 by (simp add: h1_def del: reach.simps)
  then obtain citems where c1: "?n0 < length h1" "h1 ! ?n0 = ODict citems"
    by (auto elim: is_dictE)
  have ok1: "section_ok h1 (VRef ?n0) ''sp''" "section_ok h1 (VRef ?n0) ''security''"
    unfolding h1_def using d ok0 by (auto intro: copy_section_ok simp del: reach.simps)
  obtain flds where flds: "idp_certificates_of (certs_of self) = Inr flds"
    by (simp add: idp_certificates_of_certs)
  obtain X where X: "build_idp self flds h1 = (h1 @ X, VRef (length h1 + length X - 1))"
      "X \<noteq> []"
      "\<And>n g Z. length g = length h1 \<Longrightarrow>
         view (n + 3) (g @ X @ Z) (VRef (length h1 + length X - 1)) = idp_tree self"
  proof -
    have "\<exists>X. build_idp self flds h1 = (h1 @ X, VRef (length h1 + length X - 1)) \<and> X \<noteq> []
           \<and> (\<forall>n g Z. length g = length h1 \<longrightarrow>
                 view (n + 3) (g @ X @ Z) (VRef (length h1 + length X - 1)) = idp_tree self)"
      using flds by (rule build_idp_view)
    then show ?thesis using that by blast
  qed
  define H where "H = h1 @ X"
  define i where "i = length h1 + length X - 1"
  have idp: "build_idp self flds h1 = (H, VRef i)"
    using X(1) by (simp add: H_def i_def)
  have cH: "?n0 < length H" "H ! ?n0 = ODict citems"
    using c1 by (simp_all add: nth_append H_def)
  have okH: "section_ok H (VRef ?n0) ''sp''" "section_ok H (VRef ?n0) ''security''"
    unfolding H_def using cd ok1 by (auto intro: section_ok_append)
  define c1' where "c1' = with_default citems ''sp'' (VRef (length H))"
  define spobj where "spobj = ODict (dict_update (section_items H (VRef ?n0) ''sp'')
                          (sp_literal self (VRef (length H + 1))))"
  define H3 where "H3 = H[?n0 := ODict c1'] @ [ODict [], ODict (acs_literal self), spobj]"
  have sp: "build_sp self (VRef ?n0) H = (H3, Inr (VRef (length H + 2)))"
    unfolding H3_def c1'_def spobj_def using cH okH(1) by (rule build_sp_eq)
  have cH3: "?n0 < length H3" "H3 ! ?n0 = ODict c1'"
    using cH(1) by (simp_all add: nth_append H3_def)
  have ok3: "section_ok H3 (VRef ?n0) ''security''"
    unfolding H3_def c1'_def using cH okH(2) by (rule section_ok_update) simp
  define ks where "ks = section_items H3 (VRef ?n0) ''security''"
  define c2 where "c2 = with_default c1' ''security'' (VRef (length H3))"
  define H5 where "H5 = H3[?n0 := ODict c2] @ [ODict [], ODict (dict_update ks (security_literal self))]"
  have sec: "build_security self (VRef ?n0) H3 = (H5, Inr (VRef (length H3 + 1)))"
    unfolding H5_def c2_def ks_def using cH3 ok3 by (rule build_security_eq)
  define hf where "hf = H5 @ [ODict (out_items self (VRef i) (VRef (length H + 2)) (VRef (length H3 + 1)))]"
  have run: "get_provider_config self (VRef d) h0 = (hf, Inr (VRef (length H5)))"
    unfolding get_provider_config_def flds
    by (simp add: dc idp sp sec and_then_def alloc_def set_flags_fresh hf_def)
  have len: "length H = length h1 + length X" "length H3 = length H + 3"
    "length H5 = length H + 5" "length hf = length H + 6"
    by (simp_all add: H_def H3_def H5_def hf_def)
  have hf: "hf = h1[?n0 := ODict c2] @ X @ [ODict [], ODict (acs_literal self), spobj,
               ODict [], ODict (dict_update ks (security_literal self)),
               ODict (out_items self (VRef i) (VRef (length H + 2)) (VRef (length H3 + 1)))]"
    using c1(1) by (simp add: hf_def H5_def H3_def H_def list_update_append)
  have f1: "length H5 < length hf" by (simp add: len)
  have f2: "hf ! length H5 = ODict (out_items self (VRef i) (VRef (length H + 2)) (VRef (length H3 + 1)))"
    by (simp add: hf_def)
  have f3: "view (n + 3) hf (VRef i) = idp_tree self" for n
    unfolding hf i_def by (rule X(3)) simp
  have f4: "length H + 2 < length hf" "length H + 1 < length hf" "length H3 + 1 < length hf"
    by (simp_all add: len)
  have "hf ! (length H + 2) = spobj"
    by (simp add: hf len nth_append)
  then have f5: "hf ! (length H + 2) = ODict (dict_update (section_items h1 (VRef ?n0) ''sp'')
                         (sp_literal self (VRef (length H + 1))))"
    using section_items_append [OF cd ok1(1), of X] by (simp add: spobj_def H_def)
  have f6: "hf ! (length H + 1) = ODict (acs_literal self)"
    by (simp add: hf len nth_append)
  have f7: "hf ! (length H3 + 1) = ODict (dict_update ks (security_literal self))"
    by (simp add: hf len nth_append)
  have f8: "ks = section_items h1 (VRef ?n0) ''security''"
    if "map_of (dict_items h1 (VRef ?n0)) ''security'' \<noteq> Some (VRef ?n0)"
  proof -
    have "dict_items h1 (VRef ?n0) = citems" using c1 by (rule dict_items_dict)
    with that have "map_of citems ''security'' \<noteq> Some (VRef ?n0)" by simp
    with cH okH(2) have "ks = section_items H (VRef ?n0) ''security''"
      unfolding ks_def H3_def c1'_def by (intro section_items_update) simp_all
    also have "\<dots> = section_items h1 (VRef ?n0) ''security''"
      unfolding H_def using cd ok1(2) by (rule section_items_append)
    finally show ?thesis .
  qed
  have f9: "length h1 \<le> length hf" by (simp add: len)
  have f10: "hf ! a = h1 ! a" if "a < length h1" "a \<noteq> ?n0" for a
    unfolding hf using that by (simp add: nth_append)
  show ?thesis
    using run f1 f2 f3 f4 f5 f6 f7 f8 f9 f10 by blast
qed

lemma run_view:
  assumes tmpl: "template h0 (VRef d)"
  defines "h1 \<equiv> h0 @ copies h0 (reach h0 [d] [])"
  shows "\<exists>hf ks. fst (get_provider_config self (VRef d) h0) = hf
     \<and> (\<forall>n. observe (n + 4) (get_provider_config self (VRef d) h0) =
        Inr (TDict ([(''idp'', idp_tree self),
                    (''sp'', TDict (dict_update
                        (map (\<lambda>kv. (fst kv, view (n + 2) hf (snd kv)))
                           (section_items h1 (VRef (length h0)) ''sp''))
                        (sp_overlay self))),
                    (''security'', TDict (dict_update
                        (map (\<lambda>kv. (fst kv, view (n + 2) hf (snd kv))) ks)
                        (security_overlay self)))] @ flag_items self)))
     \<and> (map_of (dict_items h1 (VRef (length h0))) ''security'' \<noteq> Some (VRef (length h0))
          \<longrightarrow> ks = section_items h1 (VRef (length h0)) ''security'')
     \<and> length h1 \<le> length hf
     \<and> (\<forall>a<length h1. a \<noteq> length h0 \<longrightarrow> hf ! a = h1 ! a)"
proof -
  from run [OF tmpl, of self] obtain hf out i s acs t ks where
    r: "get_provider_config self (VRef d) h0 = (hf, Inr (VRef out))"
    and out: "out < length hf" "hf ! out = ODict (out_items self (VRef i) (VRef s) (VRef t))"
    and i: "\<And>n. view (n + 3) hf (VRef i) = idp_tree self"
    and s: "s < length hf"
      "hf ! s = ODict (dict_update (section_items h1 (VRef (length h0)) ''sp'')
                         (sp_literal self (VRef acs)))"
    and acs: "acs < length hf" "hf ! acs = ODict (acs_literal self)"
    and t: "t < length hf" "hf ! t = ODict (dict_update ks (security_literal self))"
    and ks: "map_of (dict_items h1 (VRef (length h0))) ''security'' \<noteq> Some (VRef (length h0))
          \<longrightarrow> ks = section_items h1 (VRef (length h0)) ''security''"
    and fr: "length h1 \<le> length hf" "\<forall>a<length h1. a \<noteq> length h0 \<longrightarrow> hf ! a = h1 ! a"
    unfolding h1_def by blast
  have vacs: "view (Suc n) hf (VRef acs)
                = TDict [(''url'', TStr ''''), (''binding'', TStr (sp_acs_binding self))]" for n
    using view_dict [OF acs, of n] by (simp add: acs_literal_def)
  have n3: "n + 3 = Suc (n + 2)" "n + 4 = Suc (n + 3)" for n :: nat by simp_all
  have vs: "view (n + 3) hf (VRef s) =
      TDict (dict_update
               (map (\<lambda>kv. (fst kv, view (n + 2) hf (snd kv)))
                    (section_items h1 (VRef (length h0)) ''sp''))
               (sp_overlay self))" for n
  proof -
    have "map (\<lambda>kv. (fst kv, view (n + 2) hf (snd kv))) (sp_literal self (VRef acs))
            = sp_overlay self"
      using vacs [of "Suc n"] by (simp add: sp_literal_def sp_overlay_def del: view.simps(6))
    then show ?thesis
      unfolding n3 view_dict [OF s] map_dict_update by simp
  qed
  have vt: "view (n + 3) hf (VRef t) =
      TDict (dict_update (map (\<lambda>kv. (fst kv, view (n + 2) hf (snd kv))) ks)
               (security_overlay self))" for n
  proof -
    have "map (\<lambda>kv. (fst kv, view (n + 2) hf (snd kv))) (security_literal self)
            = security_overlay self"
      by (simp add: security_literal_def security_overlay_def)
    then show ?thesis
      unfolding n3 view_dict [OF t] map_dict_update by simp
  qed
  have vo: "view (n + 4) hf (VRef out) =
     TDict ([(''idp'', view (n + 3) hf (VRef i)), (''sp'', view (n + 3) hf (VRef s)),
             (''security'', view (n + 3) hf (VRef t))] @ flag_items self)" for n
    unfolding n3(2) view_dict [OF out]
    by (simp add: out_items_def flag_items_def del: view.simps(6))
  have "observe (n + 4) (get_provider_config self (VRef d) h0) =
        Inr (TDict ([(''idp'', idp_tree self),
                    (''sp'', TDict (dict_update
                        (map (\<lambda>kv. (fst kv, view (n + 2) hf (snd kv)))
                           (section_items h1 (VRef (length h0)) ''sp''))
                        (sp_overlay self))),
                    (''security'', TDict (dict_update
                        (map (\<lambda>kv. (fst kv, view (n + 2) hf (snd kv))) ks)
                        (security_overlay self)))] @ flag_items self))" for n
    unfolding r observe_def using vo [of n] i [of n] vs [of n] vt [of n] by simp
  with r ks fr show ?thesis by auto
qed

lemma run_sections:
  assumes tmpl: "template h (VRef d)" and wf: "wf_heap h" and sf: "self_free h (VRef d)"
  shows "observe (n + 4) (get_provider_config self (VRef d) h) =
        Inr (TDict ([(''idp'', idp_tree self),
                    (''sp'', TDict (dict_update (sub_items (view (n + 4) h (VRef d)) ''sp'')
                                      (sp_overlay self))),
                    (''security'', TDict (dict_update
                                      (sub_items (view (n + 4) h (VRef d)) ''security'')
                                      (security_overlay self)))] @ flag_items self))"
proof -
  let ?R = "reach h [d] []"
  let ?h1 = "h @ copies h ?R"
  from tmpl have "is_dict h (VRef d)" by (simp add: template_def)
  then obtain items where d: "d < length h" "h ! d = ODict items"
    by (auto elim: is_dictE)
  from tmpl have ok: "section_ok h (VRef d) ''sp''" "section_ok h (VRef d) ''security''"
    by (simp_all add: template_def)
  from run_view [OF tmpl, of self] obtain hf ks where
    obs: "\<And>n. observe (n + 4) (get_provider_config self (VRef d) h) =
        Inr (TDict ([(''idp'', idp_tree self),
                    (''sp'', TDict (dict_update
                        (map (\<lambda>kv. (fst kv, view (n + 2) hf (snd kv)))
                           (section_items ?h1 (VRef (length h)) ''sp''))
                        (sp_overlay self))),
                    (''security'', TDict (dict_update
                        (map (\<lambda>kv. (fst kv, view (n + 2) hf (snd kv))) ks)
                        (security_overlay self)))] @ flag_items self))"
    and ks: "map_of (dict_items ?h1 (VRef (length h))) ''security'' \<noteq> Some (VRef (length h))
          \<longrightarrow> ks = section_items ?h1 (VRef (length h)) ''security''"
    and fr: "length ?h1 \<le> length hf" "\<forall>a<length ?h1. a \<noteq> length h \<longrightarrow> hf ! a = ?h1 ! a"
    by blast
  have ks': "ks = section_items ?h1 (VRef (length h)) ''security''"
    using ks copy_section_not_self [OF sf d ok(2)] by blast
  have sect: "map (\<lambda>kv. (fst kv, view (n + 2) hf (snd kv))) (section_items ?h1 (VRef (length h)) k)
                = sub_items (view (n + 4) h (VRef d)) k"
    if okk: "section_ok h (VRef d) k" for k
  proof -
    have "map (\<lambda>kv. (fst kv, view (n + 2) hf (snd kv))) (section_items ?h1 (VRef (length h)) k)
            = map (\<lambda>kv. (fst kv, view (n + 2) hf (rename_val (copy_addr h ?R) (snd kv))))
                (section_items h (VRef d) k)"
      unfolding copy_section_items [OF d okk] by (simp add: comp_def del: reach.simps)
    also have "\<dots> = map (\<lambda>kv. (fst kv, view (n + 2) h (snd kv))) (section_items h (VRef d) k)"
    proof (rule map_cong [OF refl])
      fix kv assume "kv \<in> set (section_items h (VRef d) k)"
      with wf sf d okk have "set (refs_of_val (snd kv)) \<subseteq> set ?R - {d}"
        by (rule section_value_refs)
      with wf sf d(1) fr
      have "view (n + 2) hf (rename_val (copy_addr h ?R) (snd kv)) = view (n + 2) h (snd kv)"
        by (rule copy_view)
      then show "(fst kv, view (n + 2) hf (rename_val (copy_addr h ?R) (snd kv)))
                   = (fst kv, view (n + 2) h (snd kv))" by simp
    qed
    also have "\<dots> = sub_items (view (n + 4) h (VRef d)) k"
      using sub_items_view [OF d okk, of n] by simp
    finally show ?thesis .
  qed
  show ?thesis
    unfolding obs ks' sect [OF ok(1)] sect [OF ok(2)] ..
qed

lemma template_ref: "template h defaults \<Longrightarrow> \<exists>d. defaults = VRef d"
  by (auto simp: template_def elim: is_dictE)

lemma output_shape:
  assumes "template h defaults"
  shows "\<exists>sp sec. observe (n + 4) (get_provider_config self defaults h) =
           Inr (TDict ([(''idp'', idp_tree self), (''sp'', sp), (''security'', sec)]
                        @ flag_items self))"
proof -
  from assms obtain d where d: "defaults = VRef d" using template_ref by blast
  from run_view [OF assms [unfolded d], of self] show ?thesis unfolding d by blast
qed

lemma idp_section:
  assumes "template h defaults"
  shows "section_of (observe 4 (get_provider_config self defaults h)) ''idp'' = Some (idp_tree self)"
  using output_shape [OF assms, of 0 self] by (auto simp: section_of_def tree_get_def)

lemma sections:
  assumes "template h defaults" "wf_heap h" "self_free h defaults"
  shows "section_of (observe (n + 4) (get_provider_config self defaults h)) ''sp''
           = Some (TDict (dict_update (sub_items (view (n + 4) h defaults) ''sp'')
                            (sp_overlay self)))"
    and "section_of (observe (n + 4) (get_provider_config self defaults h)) ''security''
           = Some (TDict (dict_update (sub_items (view (n + 4) h defaults) ''security'')
                            (security_overlay self)))"
proof -
  from assms(1) obtain d where d: "defaults = VRef d" using template_ref by blast
  note r = run_sections [OF assms [unfolded d], of n self]
  show "section_of (observe (n + 4) (get_provider_config self defaults h)) ''sp''
           = Some (TDict (dict_update (sub_items (view (n + 4) h defaults) ''sp'')
                            (sp_overlay self)))"
    unfolding d r by (simp add: section_of_def tree_get_def)
  show "section_of (observe (n + 4) (get_provider_config self defaults h)) ''security''
           = Some (TDict (dict_update (sub_items (view (n + 4) h defaults) ''security'')
                            (security_overlay self)))"
    unfolding d r by (simp add: section_of_def tree_get_def)
qed

section \<open>When the method returns\<close>

text \<open>
  On a value that is not a template the method raises: \<^verbatim>\<open>setdefault\<close> fails on a
  defaults value that is not a dict, \<^verbatim>\<open>**\<close> fails on an \<^verbatim>\<open>sp\<close> or \<^verbatim>\<open>security\<close> entry that
  is not a dict. So the templates are exactly the defaults on which a call has a result.
\<close>

lemma snd_and_then_Inl: "snd m = Inl e \<Longrightarrow> snd (and_then m f) = Inl e"
  by (cases m) (simp add: and_then_def)

lemma mapping_items_not_dict: "\<not> is_dict H v \<Longrightarrow> \<exists>e. mapping_items H v = Inl e"
  by (auto simp: is_dict_def mapping_items_def split: val.splits option.splits obj.splits)

lemma setdefault_not_dict: "\<not> is_dict H d \<Longrightarrow> \<exists>e. snd (setdefault d k v H) = Inl e"
  by (auto simp: is_dict_def setdefault_def split: val.splits option.splits obj.splits)

lemma setdefault_present:
  "c < length H \<Longrightarrow> H ! c = ODict citems \<Longrightarrow> map_of citems k = Some v \<Longrightarrow>
     setdefault (VRef c) k dflt H = (H, Inr v)"
  by (simp add: setdefault_def obj_at_def)

lemma build_sp_raises_config:
  assumes "\<not> is_dict (h @ [ODict []]) config"
  shows "\<exists>e. snd (build_sp self config h) = Inl e"
proof -
  from setdefault_not_dict [OF assms] obtain e
    where "snd (setdefault config ''sp'' (VRef (length h)) (h @ [ODict []])) = Inl e" by blast
  then have "snd (build_sp self config h) = Inl e"
    unfolding build_sp_def alloc_def Let_def prod.case by (rule snd_and_then_Inl)
  then show ?thesis ..
qed

lemma build_sp_raises_section:
  assumes c: "c < length H" "H ! c = ODict citems" and v: "map_of citems ''sp'' = Some v"
    and nd: "\<not> is_dict (H @ [ODict []]) v"
  shows "\<exists>e. snd (build_sp self (VRef c) H) = Inl e"
proof -
  from mapping_items_not_dict [OF nd] obtain e where e: "mapping_items (H @ [ODict []]) v = Inl e"
    by blast
  have "setdefault (VRef c) ''sp'' (VRef (length H)) (H @ [ODict []]) = (H @ [ODict []], Inr v)"
    using c v by (intro setdefault_present) (simp_all add: nth_append)
  then have "snd (build_sp self (VRef c) H) = Inl e"
    unfolding build_sp_def alloc_def Let_def prod.case
    by (simp add: and_then_def unpack_def e)
  then show ?thesis ..
qed

lemma build_security_raises_section:
  assumes c: "c < length H" "H ! c = ODict citems" and v: "map_of citems ''security'' = Some v"
    and nd: "\<not> is_dict (H @ [ODict []]) v"
  shows "\<exists>e. snd (build_security self (VRef c) H) = Inl e"
proof -
  from mapping_items_not_dict [OF nd] obtain e where e: "mapping_items (H @ [ODict []]) v = Inl e"
    by blast
  have "setdefault (VRef c) ''security'' (VRef (length H)) (H @ [ODict []])
          = (H @ [ODict []], Inr v)"
    using c v by (intro setdefault_present) (simp_all add: nth_append)
  then have "snd (build_security self (VRef c) H) = Inl e"
    unfolding build_security_def alloc_def Let_def prod.case
    by (simp add: and_then_def unpack_def e)
  then show ?thesis ..
qed

lemma copy_not_dict:
  assumes wf: "wf_heap h" and d: "d < length h" "h ! d = ODict items"
    and v: "map_of items k = Some v" and nd: "\<not> is_dict h v"
  shows "\<not> is_dict ((h @ copies h (reach h [d] []))[length h := ODict x] @ Y)
            (rename_val (copy_addr h (reach h [d] [])) v)"
proof (cases v)
  case (VRef a)
  let ?R = "reach h [d] []"
  have dR: "d \<in> set ?R" using d(1) by (rule reach_root_mem)
  obtain R' where R': "?R = d # R'" using reach_root [OF d(1)] by blast
  have ar: "a \<in> set (refs_of_obj (h ! d))"
    using v VRef d(2) by (simp add: ref_in_refs_of_obj)
  with wf d(1) have al: "a < length h" by (rule wf_heap_refs)
  from dR ar al have aR: "a \<in> set ?R" by (rule reach_root_closed)
  from nd VRef al obtain vs where vs: "h ! a = OList vs"
    by (cases "h ! a") (auto simp: is_dict_def obj_at_def)
  with d(2) have "a \<noteq> d" by auto
  then have ne: "copy_addr h ?R a \<noteq> length h"
    unfolding R' by (simp add: copy_addr_def)
  have lt: "copy_addr h ?R a < length (h @ copies h ?R)"
    using aR by (simp add: copy_addr_less length_copies del: reach.simps)
  have "((h @ copies h ?R)[length h := ODict x] @ Y) ! copy_addr h ?R a
          = (h @ copies h ?R) ! copy_addr h ?R a"
    using lt ne by (simp add: nth_append del: reach.simps)
  also have "\<dots> = rename_obj (copy_addr h ?R) (h ! a)" using aR by (rule copies_nth)
  finally have "((h @ copies h ?R)[length h := ODict x] @ Y) ! copy_addr h ?R a
                  = OList (map (rename_val (copy_addr h ?R)) vs)"
    by (simp add: vs del: reach.simps)
  then show ?thesis
    using lt by (simp add: VRef is_dict_def obj_at_def del: reach.simps)
qed (simp_all add: is_dict_def)

lemma raises_in_sp:
  assumes "idp_certificates_of (certs_of self) = Inr flds"
    and "deepcopy defaults h = (h1, config)" and "build_idp self flds h1 = (h2, idp)"
    and "snd (build_sp self config h2) = Inl e"
  shows "snd (get_provider_config self defaults h) = Inl e"
  unfolding get_provider_config_def assms(1-3) sum.case Let_def prod.case
  using assms(4) by (rule snd_and_then_Inl)

lemma raises_in_security:
  assumes "idp_certificates_of (certs_of self) = Inr flds"
    and "deepcopy defaults h = (h1, config)" and "build_idp self flds h1 = (h2, idp)"
    and "build_sp self config h2 = (h3, Inr sp)"
    and "snd (build_security self config h3) = Inl e"
  shows "snd (get_provider_config self defaults h) = Inl e"
proof -
  have "and_then (build_sp self config h2) f = f sp h3" for f :: "val \<Rightarrow> heap \<Rightarrow> heap \<times> (error + val)"
    by (simp add: assms(4) and_then_def)
  then show ?thesis
    unfolding get_provider_config_def assms(1-3) sum.case Let_def prod.case
    using assms(5) by (simp add: snd_and_then_Inl)
qed

lemma raises_unless_template:
  assumes wf: "wf_heap h" and iv: "in_store h defaults" and nt: "\<not> template h defaults"
  shows "\<exists>e. snd (get_provider_config self defaults h) = Inl e"
proof -
  obtain flds where flds: "idp_certificates_of (certs_of self) = Inr flds"
    by (simp add: idp_certificates_of_certs)
  obtain h1 config where dc: "deepcopy defaults h = (h1, config)"
    by (cases "deepcopy defaults h")
  obtain h2 idp where bi: "build_idp self flds h1 = (h2, idp)"
    by (cases "build_idp self flds h1")
  obtain X where X: "h2 = h1 @ X"
    using build_idp_view [OF flds, of h1] bi by auto
  note sp = raises_in_sp [OF flds dc bi]
  show ?thesis
  proof (cases defaults)
    case (VRef d)
    let ?R = "reach h [d] []"
    let ?r = "copy_addr h ?R"
    from iv VRef have d: "d < length h" by (simp add: in_store_def)
    have dR: "d \<in> set ?R" using d by (rule reach_root_mem)
    from dc VRef have h1: "h1 = h @ copies h ?R" and config: "config = VRef (length h)"
      by (simp_all add: deepcopy_ref [OF d] del: reach.simps)
    have c0: "?r d = length h"
      using reach_root [OF d] by (auto simp: copy_addr_def simp del: reach.simps)
    have n0: "length h < length h1"
      using copy_addr_less [OF dR, of h] c0 by (simp add: h1 length_copies del: reach.simps)
    have at0: "h1 ! length h = rename_obj ?r (h ! d)"
      using copies_nth [OF dR, of h] c0 by (simp add: h1 del: reach.simps)
    show ?thesis
    proof (cases "h ! d")
      case (OList vs)
      have "(h2 @ [ODict []]) ! length h = OList (map (rename_val ?r) vs)"
        using n0 at0 by (simp add: X nth_append OList del: reach.simps)
      then have "\<not> is_dict (h2 @ [ODict []]) config"
        using n0 by (simp add: config is_dict_def obj_at_def X del: reach.simps)
      from build_sp_raises_config [OF this, of self] sp show ?thesis by blast
    next
      case (ODict items)
      let ?citems = "map (\<lambda>kv. (fst kv, rename_val ?r (snd kv))) items"
      have c2: "length h < length h2" "h2 ! length h = ODict ?citems"
        using n0 at0 by (simp_all add: X nth_append ODict del: reach.simps)
      have i0: "dict_items h (VRef d) = items" using d ODict by (rule dict_items_dict)
      have isd: "is_dict h (VRef d)" using d ODict by (rule is_dictI)
      have "h1 ! length h = ODict ?citems"
        using at0 by (simp add: ODict del: reach.simps)
      then have upd: "h1[length h := ODict ?citems] = h1"
        by (metis list_update_id)
      show ?thesis
      proof (cases "section_ok h (VRef d) ''sp''")
        case False
        then obtain v where v: "map_of items ''sp'' = Some v" "\<not> is_dict h v"
          by (cases "map_of items ''sp''") (auto simp: section_ok_def i0)
        have "\<not> is_dict (h1[length h := ODict ?citems] @ (X @ [ODict []])) (rename_val ?r v)"
          unfolding h1 using wf d ODict v by (rule copy_not_dict)
        then have nd: "\<not> is_dict (h2 @ [ODict []]) (rename_val ?r v)"
          by (simp add: upd X del: reach.simps)
        have "map_of ?citems ''sp'' = Some (rename_val ?r v)"
          by (simp add: map_of_rename v del: reach.simps)
        from build_sp_raises_section [OF c2 this nd, of self] sp show ?thesis
          unfolding config by blast
      next
        case True
        with nt VRef isd have "\<not> section_ok h (VRef d) ''security''"
          by (simp add: template_def)
        then obtain v where v: "map_of items ''security'' = Some v" "\<not> is_dict h v"
          by (cases "map_of items ''security''") (auto simp: section_ok_def i0)
        have ok1: "section_ok h1 (VRef (length h)) ''sp''"
          unfolding h1 using d ODict True by (rule copy_section_ok)
        have d1: "is_dict h1 (VRef (length h))"
          using n0 at0 by (auto intro: is_dictI simp: ODict simp del: reach.simps)
        have ok2: "section_ok h2 (VRef (length h)) ''sp''"
          unfolding X using d1 ok1 by (rule section_ok_append)
        let ?c1 = "with_default ?citems ''sp'' (VRef (length h2))"
        let ?tail = "[ODict [], ODict (acs_literal self),
                 ODict (dict_update (section_items h2 (VRef (length h)) ''sp'')
                          (sp_literal self (VRef (length h2 + 1))))]"
        let ?h3 = "h2[length h := ODict ?c1] @ ?tail"
        have bs: "build_sp self (VRef (length h)) h2 = (?h3, Inr (VRef (length h2 + 2)))"
          using c2 ok2 by (rule build_sp_eq)
        have c3: "length h < length ?h3" "?h3 ! length h = ODict ?c1"
          using c2(1) by (simp_all add: nth_append)
        have m: "map_of ?c1 ''security'' = Some (rename_val ?r v)"
          by (simp add: map_of_with_default map_of_rename v del: reach.simps)
        have eq: "h1[length h := ODict ?c1] @ (X @ ?tail @ [ODict []]) = ?h3 @ [ODict []]"
          using n0 by (simp add: X list_update_append del: reach.simps)
        have "\<not> is_dict (h1[length h := ODict ?c1] @ (X @ ?tail @ [ODict []])) (rename_val ?r v)"
          unfolding h1 using wf d ODict v by (rule copy_not_dict)
        then have nd: "\<not> is_dict (?h3 @ [ODict []]) (rename_val ?r v)"
          unfolding eq .
        from build_security_raises_section [OF c3 m nd, of self]
        obtain e where "snd (build_security self (VRef (length h)) ?h3) = Inl e" by blast
        with raises_in_security [OF flds dc bi bs [folded config]] show ?thesis
          unfolding config by blast
      qed
    qed
  next
    case VNone
    with dc have "config = VNone" by (simp add: deepcopy_def)
    then have "\<not> is_dict (h2 @ [ODict []]) config" by (simp add: is_dict_def)
    from build_sp_raises_config [OF this, of self] sp show ?thesis by blast
  next
    case (VBool b)
    with dc have "config = VBool b" by (simp add: deepcopy_def)
    then have "\<not> is_dict (h2 @ [ODict []]) config" by (simp add: is_dict_def)
    from build_sp_raises_config [OF this, of self] sp show ?thesis by blast
  next
    case (VInt i)
    with dc have "config = VInt i" by (simp add: deepcopy_def)
    then have "\<not> is_dict (h2 @ [ODict []]) config" by (simp add: is_dict_def)
    from build_sp_raises_config [OF this, of self] sp show ?thesis by blast
  next
    case (VStr s)
    with dc have "config = VStr s" by (simp add: deepcopy_def)
    then have "\<not> is_dict (h2 @ [ODict []]) config" by (simp add: is_dict_def)
    from build_sp_raises_config [OF this, of self] sp show ?thesis by blast
  qed
qed

lemma returns_iff_template:
  assumes "wf_heap h" and "in_store h defaults"
  shows "(\<exists>v. snd (get_provider_config self defaults h) = Inr v) \<longleftrightarrow> template h defaults"
proof
  assume r: "\<exists>v. snd (get_provider_config self defaults h) = Inr v"
  show "template h defaults"
  proof (rule ccontr)
    assume "\<not> template h defaults"
    from raises_unless_template [OF assms this, of self] r show False by auto
  qed
next
  assume t: "template h defaults"
  then obtain d where d: "defaults = VRef d" using template_ref by blast
  from run [OF t [unfolded d], of self] show "\<exists>v. snd (get_provider_config self defaults h) = Inr v"
    unfolding d by auto
qed

section \<open>Defaults that contain themselves\<close>

text \<open>
  Why \<open>self_free\<close> is asked of a template where the sections \<^verbatim>\<open>sp\<close> and \<^verbatim>\<open>security\<close> are
  compared with the defaults. With \<^verbatim>\<open>d = {"sp": {}}; d["sp"]["parent"] = d\<close> the output's
  \<^verbatim>\<open>sp\<close> section refers, under \<^verbatim>\<open>parent\<close>, to the copy of \<^verbatim>\<open>d\<close>, and the later
  \<^verbatim>\<open>setdefault("security", ...)\<close> adds a key to that copy.
\<close>

lemma self_containing_defaults_example:
  "template store_cyclic (VRef 1) \<and> wf_heap store_cyclic \<and> \<not> self_free store_cyclic (VRef 1)
   \<and> map_of (sub_items (view 4 store_cyclic (VRef 1)) ''sp'') ''parent''
        = Some (TDict [(''sp'', TDict [(''parent'', TCut)])])
   \<and> (case section_of (observe 4 (get_provider_config scenario_A (VRef 1) store_cyclic)) ''sp''
       of None \<Rightarrow> None | Some t \<Rightarrow> tree_get t ''parent'')
        = Some (TDict [(''sp'', TDict [(''parent'', TCut)]), (''security'', TDict [])])"
  by code_simp

section \<open>What a call leaves untouched\<close>

text \<open>
  Every step adds objects to the store or updates an object made during the call.
\<close>

lemma frame_refl: "n \<le> length h \<Longrightarrow> frame n h h"
  by (simp add: frame_def)

lemma frame_trans: "frame n h h' \<Longrightarrow> frame n h' h'' \<Longrightarrow> frame n h h''"
  by (simp add: frame_def)

lemma frame_append: "n \<le> length h \<Longrightarrow> frame n h (h @ X)"
  by (simp add: frame_def)

lemma frame_update: "n \<le> length h \<Longrightarrow> n \<le> a \<Longrightarrow> frame n h (h[a := x])"
  by (simp add: frame_def)

lemma frame_le: "frame n h h' \<Longrightarrow> n \<le> length h'"
  by (simp add: frame_def)

lemma frame_take: "frame (length h) h h' \<Longrightarrow> take (length h) h' = h"
  by (simp add: frame_def)

lemma store_lists_ext: "\<exists>X. fst (store_lists cs h) = h @ X"
proof (induction cs arbitrary: h)
  case Nil
  show ?case by simp
next
  case (Cons kx cs)
  obtain k xs where kx: "kx = (k, xs)" by (cases kx)
  from Cons [of "h @ [OList (map VStr xs)]"] obtain X
    where "fst (store_lists cs (h @ [OList (map VStr xs)])) = (h @ [OList (map VStr xs)]) @ X"
    by blast
  then show ?case
    by (auto simp: kx alloc_def split: prod.splits)
qed

lemma store_field_ext: "\<exists>X. fst (store_field f h) = h @ X"
proof (cases f)
  case (Single c)
  then show ?thesis by simp
next
  case (Multi cs)
  obtain X where "fst (store_lists cs h) = h @ X" using store_lists_ext by blast
  then show ?thesis
    by (auto simp: Multi store_certs_def alloc_def split: prod.splits)
qed

lemma store_fields_ext: "\<exists>X. fst (store_fields fs h) = h @ X"
proof (induction fs arbitrary: h)
  case Nil
  show ?case by simp
next
  case (Cons kf fs)
  obtain k f where kf: "kf = (k, f)" by (cases kf)
  obtain X where X: "fst (store_field f h) = h @ X" using store_field_ext by blast
  from Cons [of "h @ X"] obtain Y where "fst (store_fields fs (h @ X)) = (h @ X) @ Y"
    by blast
  with X show ?case
    by (auto simp: kf split: prod.splits)
qed

lemma build_idp_frame: "n \<le> length h \<Longrightarrow> frame n h (fst (build_idp self flds h))"
proof -
  assume n: "n \<le> length h"
  obtain X where "fst (store_fields flds h) = h @ X" using store_fields_ext by blast
  then have "\<exists>Y. fst (build_idp self flds h) = h @ Y"
    by (auto simp: build_idp_def alloc_def split: prod.splits)
  with n show ?thesis by (auto simp: frame_append)
qed

lemma deepcopy_frame: "n \<le> length h \<Longrightarrow> frame n h (fst (deepcopy x h))"
  by (cases x) (simp_all add: deepcopy_def Let_def frame_append frame_refl del: reach.simps)

lemma deepcopy_outside: "n \<le> length h \<Longrightarrow> outside n (snd (deepcopy x h))"
  by (cases x) (simp_all add: deepcopy_def Let_def outside_def copy_addr_def del: reach.simps)

lemma frame_and_then:
  assumes "frame n h (fst m)" and "\<And>x. frame n (fst m) (fst (f x (fst m)))"
  shows "frame n h (fst (and_then m f))"
proof (cases m)
  case (Pair h' r)
  show ?thesis
  proof (cases r)
    case (Inl e)
    with Pair assms(1) show ?thesis by (simp add: and_then_def)
  next
    case (Inr x)
    from assms(1) assms(2) [of x] have "frame n h (fst (f x (fst m)))" by (rule frame_trans)
    with Pair Inr show ?thesis by (simp add: and_then_def)
  qed
qed

lemma frame_unpack_then:
  assumes "n \<le> length h" and "\<And>kvs. frame n h (fst (g kvs h))"
  shows "frame n h (fst (and_then (unpack v h) g))"
proof (rule frame_and_then)
  show "frame n h (fst (unpack v h))" using assms(1) by (simp add: unpack_def frame_refl)
  show "frame n (fst (unpack v h)) (fst (g x (fst (unpack v h))))" for x
    using assms(2) [of x] by (simp add: unpack_def)
qed

lemma setdefault_frame:
  "n \<le> length h \<Longrightarrow> outside n d \<Longrightarrow> frame n h (fst (setdefault d k v h))"
  by (auto simp: setdefault_def outside_def frame_refl frame_update
      split: val.splits option.splits obj.splits)

lemma setitem_frame:
  "n \<le> length h \<Longrightarrow> outside n d \<Longrightarrow> frame n h (fst (setitem d k v h))"
  by (auto simp: setitem_def outside_def frame_refl frame_update
      split: val.splits option.splits obj.splits)

lemma build_sp_frame:
  assumes "n \<le> length h" "outside n config"
  shows "frame n h (fst (build_sp self config h))"
proof -
  let ?m = "setdefault config ''sp'' (VRef (length h)) (h @ [ODict []])"
  have 1: "frame n h (h @ [ODict []])" using assms(1) by (rule frame_append)
  have 2: "frame n (h @ [ODict []]) (fst ?m)"
    using assms by (intro setdefault_frame) simp_all
  have 12: "frame n h (fst ?m)" using 1 2 by (rule frame_trans)
  have n2: "n \<le> length (fst ?m)" using 12 by (rule frame_le)
  show ?thesis
    unfolding build_sp_def alloc_def Let_def prod.case
    by (rule frame_and_then [OF 12], rule frame_unpack_then [OF n2])
       (simp add: frame_append n2)
qed

lemma build_security_frame:
  assumes "n \<le> length h" "outside n config"
  shows "frame n h (fst (build_security self config h))"
proof -
  let ?m = "setdefault config ''security'' (VRef (length h)) (h @ [ODict []])"
  have 1: "frame n h (h @ [ODict []])" using assms(1) by (rule frame_append)
  have 2: "frame n (h @ [ODict []]) (fst ?m)"
    using assms by (intro setdefault_frame) simp_all
  have 12: "frame n h (fst ?m)" using 1 2 by (rule frame_trans)
  have n2: "n \<le> length (fst ?m)" using 12 by (rule frame_le)
  show ?thesis
    unfolding build_security_def alloc_def Let_def prod.case
    by (rule frame_and_then [OF 12], rule frame_unpack_then [OF n2])
       (simp add: frame_append n2)
qed

lemma set_flags_frame:
  assumes "n \<le> length h" "outside n config"
  shows "frame n h (fst (set_flags self config h))"
proof -
  let ?h1 = "fst (setitem config ''debug'' (VBool (debug self)) h)"
  let ?h2 = "fst (setitem config ''lowercase_urlencoding'' (VBool (lowercase_urlencoding self)) ?h1)"
  let ?h3 = "fst (setitem config ''idp_initiated_auth'' (VBool (idp_initiated_auth self)) ?h2)"
  have 1: "frame n h ?h1" using assms by (rule setitem_frame)
  have 2: "frame n ?h1 ?h2" using frame_le [OF 1] assms(2) by (rule setitem_frame)
  have 3: "frame n ?h2 ?h3" using frame_le [OF 2] assms(2) by (rule setitem_frame)
  show ?thesis
    unfolding set_flags_def
  proof (rule frame_and_then [OF 1], rule frame_and_then [OF 2], rule frame_and_then [OF 3])
    show "frame n ?h3 (fst (?h3, Inr config :: error + val))"
      using frame_le [OF 3] by (simp add: frame_refl)
  qed
qed

lemma get_provider_config_frame:
  assumes n: "n \<le> length h"
  shows "frame n h (fst (get_provider_config self defaults h))"
proof (cases "idp_certificates_of (certs_of self)")
  case (Inl e)
  with n show ?thesis by (simp add: get_provider_config_def frame_refl)
next
  case (Inr flds)
  obtain h1 config where dc: "deepcopy defaults h = (h1, config)" by (cases "deepcopy defaults h")
  obtain h2 idp where bi: "build_idp self flds h1 = (h2, idp)" by (cases "build_idp self flds h1")
  have f1: "frame n h h1" using deepcopy_frame [OF n, of defaults] dc by simp
  have o1: "outside n config" using deepcopy_outside [OF n, of defaults] dc by simp
  have f2: "frame n h1 h2" using build_idp_frame [OF frame_le [OF f1], of self flds] bi by simp
  have f12: "frame n h h2" using f1 f2 by (rule frame_trans)
  have f3: "frame n h2 (fst (build_sp self config h2))"
    using frame_le [OF f12] o1 by (rule build_sp_frame)
  have rest: "frame n h2 (fst (and_then (build_sp self config h2) (\<lambda>sp h3.
              and_then (build_security self config h3) (\<lambda>security h4.
                (let (h5, config') =
                       alloc (ODict [(''idp'', idp), (''sp'', sp), (''security'', security)]) h4
                 in set_flags self config' h5)))))"
  proof (intro frame_and_then f3)
    fix sp
    let ?h3 = "fst (build_sp self config h2)"
    have n3: "n \<le> length ?h3" using frame_trans [OF f12 f3] by (rule frame_le)
    show "frame n ?h3 (fst (build_security self config ?h3))"
      using n3 o1 by (rule build_security_frame)
    fix security
    let ?h4 = "fst (build_security self config ?h3)"
    have n4: "n \<le> length ?h4"
      using build_security_frame [OF n3 o1, of self] by (rule frame_le)
    have "frame n ?h4 (?h4 @ [ODict [(''idp'', idp), (''sp'', sp), (''security'', security)]])"
      using n4 by (rule frame_append)
    moreover have "frame n (?h4 @ [ODict [(''idp'', idp), (''sp'', sp), (''security'', security)]])
       (fst (set_flags self (VRef (length ?h4))
          (?h4 @ [ODict [(''idp'', idp), (''sp'', sp), (''security'', security)]])))"
      using n4 by (intro set_flags_frame) (simp_all add: outside_def)
    ultimately show "frame n ?h4
          (fst (let (h5, config') =
                       alloc (ODict [(''idp'', idp), (''sp'', sp), (''security'', security)]) ?h4
                 in set_flags self config' h5))"
      unfolding alloc_def Let_def prod.case by (rule frame_trans)
  qed
  from f12 rest show ?thesis
    unfolding get_provider_config_def Inr sum.case dc bi Let_def prod.case
    by (rule frame_trans)
qed

lemma run_calls_frame: "n \<le> length h \<Longrightarrow> frame n h (run_calls ps defaults h)"
proof (induction ps arbitrary: h)
  case Nil
  then show ?case by (simp add: frame_refl)
next
  case (Cons self ps)
  have 1: "frame n h (fst (get_provider_config self defaults h))"
    using Cons.prems by (rule get_provider_config_frame)
  from 1 Cons.IH [OF frame_le [OF 1]] show ?case
    by (simp add: frame_trans)
qed

lemma frame_view:
  assumes wf: "wf_heap h" and fr: "frame (length h) h h'"
    and v: "set (refs_of_val v) \<subseteq> {..<length h}"
  shows "view n h' v = view n h v"
proof -
  have "\<forall>a\<in>{..<length h}. a < length h \<and> a < length h' \<and> h' ! a = rename_obj (\<lambda>a. a) (h ! a)
          \<and> set (refs_of_obj (h ! a)) \<subseteq> {..<length h}"
  proof
    fix a assume "a \<in> {..<length h}"
    then have a: "a < length h" by simp
    from fr have "take (length h) h' = h" "length h \<le> length h'" by (simp_all add: frame_def)
    then have "h' ! a = h ! a" using a by (metis nth_take)
    moreover have "set (refs_of_obj (h ! a)) \<subseteq> {..<length h}"
      using wf a by (auto dest: wf_heap_refs)
    moreover have "a < length h'" using a fr by (simp add: frame_def)
    ultimately show "a < length h \<and> a < length h' \<and> h' ! a = rename_obj (\<lambda>a. a) (h ! a)
          \<and> set (refs_of_obj (h ! a)) \<subseteq> {..<length h}"
      using a by (simp add: rename_obj_id)
  qed
  from view_sim [OF this v, of n] show ?thesis by (simp add: rename_val_id)
qed

section \<open>The example stores\<close>

lemma template_store0: "template store0 (VRef 2)"
  by (simp add: template_def is_dict_def section_ok_def dict_items_def mapping_items_def
      obj_at_def store0_def)

lemma wf_store0: "wf_heap store0"
  by (simp add: wf_heap_def store0_def refs_of_obj_def)

lemma self_free_store0: "self_free store0 (VRef 2)"
  by (simp add: self_free_def store0_def refs_of_obj_def)

lemma template_store1: "template store1 (VRef 1)"
  by (simp add: template_def is_dict_def section_ok_def dict_items_def mapping_items_def
      obj_at_def store1_def)

lemma wf_store1: "wf_heap store1"
  by (simp add: wf_heap_def store1_def refs_of_obj_def)

lemma self_free_store1: "self_free store1 (VRef 1)"
  by (simp add: self_free_def store1_def refs_of_obj_def)

section \<open>The claims\<close>

text \<open>
  In the statements, \<open>observe n (get_provider_config self defaults h)\<close> is what the
  caller gets from a call in the store \<open>h\<close>: the returned dict unfolded to depth \<open>n\<close>;
  \<open>section_of \<dots> k\<close> is its entry \<open>k\<close>. Depth 4 shows the \<^verbatim>\<open>idp\<close> section in full.
\<close>

text \<open>
  C1. The claim: a provider with exactly one signing certificate and no encryption
  certificate (or the other way round) gets the single-certificate field \<^verbatim>\<open>x509cert\<close>.
  The method does not do this. \<^verbatim>\<open>certs\<close> always has both keys, so \<^verbatim>\<open>len(certs) == 1\<close>
  never holds and the branch written for this case is dead. The call of scenario A
  (one signing certificate \<^verbatim>\<open>CERTA\<close>, no encryption certificate) returns an \<^verbatim>\<open>idp\<close>
  section with \<^verbatim>\<open>x509certMulti\<close> and without \<^verbatim>\<open>x509cert\<close>.
\<close>

theorem scenario_A_emits_x509certMulti:
  "section_of (observe 4 (get_provider_config scenario_A (VRef 2) store0)) ''idp'' =
     Some (TDict
       [(''entityId'', TStr ''https://idp.example/metadata''),
        (''singleSignOnService'',
           TDict [(''url'', TStr ''https://idp.example/sso''), (''binding'', TStr ''HTTP-POST'')]),
        (''x509certMulti'',
           TDict [(''encryption'', TList []), (''signing'', TList [TStr ''CERTA''])])])"
  by code_simp

text \<open>
  C2. When the signing list and the encryption list each hold exactly one PEM text and
  the two texts are the same, the \<^verbatim>\<open>idp\<close> section of the output has \<^verbatim>\<open>x509cert\<close> equal
  to that text and has no \<^verbatim>\<open>x509certMulti\<close>.
\<close>

theorem same_single_certificate_emits_x509cert:
  assumes "template h defaults"
    and "idp_x509_signing_certificates self = [c]"
    and "idp_x509_encryption_certificates self = [c]"
  shows "\<exists>idp. section_of (observe 4 (get_provider_config self defaults h)) ''idp'' = Some idp
           \<and> tree_get idp ''x509cert'' = Some (TStr c)
           \<and> tree_get idp ''x509certMulti'' = None"
  using idp_section [OF assms(1), of self] assms(2,3)
  by (simp add: idp_tree_def cert_entry_cases tree_get_def)

theorem same_single_certificate_emits_x509cert_witness:
  "template store0 (VRef 2)
   \<and> idp_x509_signing_certificates scenario_B = [''CERTA'']
   \<and> idp_x509_encryption_certificates scenario_B = [''CERTA'']
   \<and> (\<exists>idp. section_of (observe 4 (get_provider_config scenario_B (VRef 2) store0)) ''idp''
                 = Some idp
           \<and> tree_get idp ''x509cert'' = Some (TStr ''CERTA'')
           \<and> tree_get idp ''x509certMulti'' = None)"
  using same_single_certificate_emits_x509cert [of store0 "VRef 2" scenario_B "''CERTA''"]
    template_store0
  by (simp add: scenario_B_def scenario_A_def)

text \<open>
  C3. In none of the single-certificate cases of the specification (both lists empty,
  more than one certificate in either list, or one certificate in each with different
  texts) the \<^verbatim>\<open>idp\<close> section has \<^verbatim>\<open>x509certMulti\<close>: a dict with the two slots
  \<^verbatim>\<open>signing\<close> and \<^verbatim>\<open>encryption\<close>, each the list of the texts of that role in the order
  of the input, the empty list for an empty input.
\<close>

theorem other_certificate_sets_emit_x509certMulti:
  assumes "template h defaults"
    and "(idp_x509_signing_certificates self = [] \<and> idp_x509_encryption_certificates self = [])
         \<or> 1 < length (idp_x509_signing_certificates self)
         \<or> 1 < length (idp_x509_encryption_certificates self)
         \<or> (length (idp_x509_signing_certificates self) = 1
              \<and> length (idp_x509_encryption_certificates self) = 1
              \<and> idp_x509_signing_certificates self \<noteq> idp_x509_encryption_certificates self)"
  shows "\<exists>idp multi.
           section_of (observe 4 (get_provider_config self defaults h)) ''idp'' = Some idp
           \<and> tree_get idp ''x509certMulti'' = Some multi
           \<and> tree_get multi ''signing''
                = Some (TList (map TStr (idp_x509_signing_certificates self)))
           \<and> tree_get multi ''encryption''
                = Some (TList (map TStr (idp_x509_encryption_certificates self)))
           \<and> set (tree_keys multi) = {''signing'', ''encryption''}"
proof -
  have "\<not> (length (idp_x509_signing_certificates self) = 1
           \<and> length (idp_x509_encryption_certificates self) = 1
           \<and> hd (idp_x509_signing_certificates self) = hd (idp_x509_encryption_certificates self))"
    using assms(2)
    by (cases "idp_x509_signing_certificates self"; cases "idp_x509_encryption_certificates self")
       auto
  then have "cert_entry self = (''x509certMulti'',
             TDict [(''encryption'', TList (map TStr (idp_x509_encryption_certificates self))),
                    (''signing'', TList (map TStr (idp_x509_signing_certificates self)))])"
    unfolding cert_entry_cases by (rule if_not_P)
  with idp_section [OF assms(1), of self] show ?thesis
    by (auto simp: idp_tree_def tree_get_def tree_keys_def)
qed

theorem other_certificate_sets_emit_x509certMulti_witness:
  "template store0 (VRef 2)
   \<and> 1 < length (idp_x509_signing_certificates scenario_C)
   \<and> (\<exists>idp multi.
         section_of (observe 4 (get_provider_config scenario_C (VRef 2) store0)) ''idp'' = Some idp
         \<and> tree_get idp ''x509certMulti'' = Some multi
         \<and> tree_get multi ''signing'' = Some (TList [TStr ''CERTA'', TStr ''CERTB''])
         \<and> tree_get multi ''encryption'' = Some (TList [])
         \<and> set (tree_keys multi) = {''signing'', ''encryption''})"
  using other_certificate_sets_emit_x509certMulti [of store0 "VRef 2" scenario_C]
    template_store0
  by (simp add: scenario_C_def scenario_A_def)

text \<open>
  C4. A call leaves the defaults argument deeply unchanged, whatever the provider and
  whatever the defaults value: every object that was in the store before the call is in
  it, unchanged, after the call, also when the call raises, so the defaults unfold to the
  same tree at every depth. The same holds after any sequence of calls with different
  providers on the same defaults: each call finds the original template. (The method
  updates in place only objects made during the call: the copy of line 174 and the
  new dict of line 175.)
\<close>

theorem defaults_never_mutated:
  assumes "wf_heap h" and "in_store h defaults"
  shows "take (length h) (fst (get_provider_config self defaults h)) = h
         \<and> view n (fst (get_provider_config self defaults h)) defaults = view n h defaults
         \<and> take (length h) (run_calls ps defaults h) = h
         \<and> view n (run_calls ps defaults h) defaults = view n h defaults"
proof (intro conjI)
  have 1: "frame (length h) h (fst (get_provider_config self defaults h))"
    by (rule get_provider_config_frame) simp
  have 2: "frame (length h) h (run_calls ps defaults h)"
    by (rule run_calls_frame) simp
  note v = in_store_refs [OF assms(2)]
  show "take (length h) (fst (get_provider_config self defaults h)) = h"
    using 1 by (rule frame_take)
  show "take (length h) (run_calls ps defaults h) = h"
    using 2 by (rule frame_take)
  show "view n (fst (get_provider_config self defaults h)) defaults = view n h defaults"
    using assms(1) 1 v by (rule frame_view)
  show "view n (run_calls ps defaults h) defaults = view n h defaults"
    using assms(1) 2 v by (rule frame_view)
qed

theorem defaults_never_mutated_witness:
  "wf_heap store0 \<and> in_store store0 (VRef 2)
   \<and> take (length store0) (fst (get_provider_config scenario_A (VRef 2) store0)) = store0
   \<and> view 4 (fst (get_provider_config scenario_A (VRef 2) store0)) (VRef 2)
        = view 4 store0 (VRef 2)
   \<and> take (length store0) (run_calls [scenario_A, scenario_B, scenario_C] (VRef 2) store0)
        = store0
   \<and> view 4 (run_calls [scenario_A, scenario_B, scenario_C] (VRef 2) store0) (VRef 2)
        = view 4 store0 (VRef 2)"
proof -
  have i: "in_store store0 (VRef 2)" by (simp add: in_store_def store0_def)
  from defaults_never_mutated [OF wf_store0 i, of scenario_A 4
      "[scenario_A, scenario_B, scenario_C]"] wf_store0 i
  show ?thesis by blast
qed

text \<open>
  C5. For every provider and every defaults template, the \<^verbatim>\<open>idp\<close> section of the output
  has \<^verbatim>\<open>entityId\<close> equal to \<^verbatim>\<open>idp_issuer\<close> and \<^verbatim>\<open>singleSignOnService\<close> equal to the dict
  of \<^verbatim>\<open>url = idp_sso_url\<close> and \<^verbatim>\<open>binding = idp_sso_binding\<close>.
\<close>

theorem idp_entity_and_sso_from_provider:
  assumes "template h defaults"
  shows "\<exists>idp. section_of (observe 4 (get_provider_config self defaults h)) ''idp'' = Some idp
           \<and> tree_get idp ''entityId'' = Some (TStr (idp_issuer self))
           \<and> tree_get idp ''singleSignOnService''
                = Some (TDict [(''url'', TStr (idp_sso_url self)),
                               (''binding'', TStr (idp_sso_binding self))])"
  using idp_section [OF assms, of self]
  by (simp add: idp_tree_def tree_get_def)

theorem idp_entity_and_sso_from_provider_witness:
  "template store0 (VRef 2)
   \<and> (\<exists>idp. section_of (observe 4 (get_provider_config scenario_A (VRef 2) store0)) ''idp''
                = Some idp
           \<and> tree_get idp ''entityId'' = Some (TStr ''https://idp.example/metadata'')
           \<and> tree_get idp ''singleSignOnService''
                = Some (TDict [(''url'', TStr ''https://idp.example/sso''),
                               (''binding'', TStr ''HTTP-POST'')]))"
  using idp_entity_and_sso_from_provider [of store0 "VRef 2" scenario_A] template_store0
  by (simp add: scenario_A_def)

text \<open>
  C6, as stated: the \<^verbatim>\<open>idp\<close> section has exactly one of \<^verbatim>\<open>x509cert\<close> and
  \<^verbatim>\<open>x509certMulti\<close>, and no key of the defaults' \<^verbatim>\<open>idp\<close> sub-object appears in it. The
  second part fails when the defaults' \<^verbatim>\<open>idp\<close> sub-object has a key that the method
  itself writes: with \<^verbatim>\<open>idp = {"entityId": "old", "extra": 1}\<close> in the defaults, the key
  \<^verbatim>\<open>entityId\<close> is a key of that sub-object and a key of the output's \<^verbatim>\<open>idp\<close> section.
\<close>

theorem defaults_idp_key_in_output_counterexample:
  "''entityId'' \<in> set (map fst (sub_items (view 4 store0 (VRef 2)) ''idp''))
   \<and> ''entityId'' \<in> set (section_keys
         (observe 4 (get_provider_config scenario_A (VRef 2) store0)) ''idp'')"
  by code_simp

text \<open>
  C6, amended: for every provider and every defaults template the keys of the \<^verbatim>\<open>idp\<close>
  section are \<^verbatim>\<open>entityId\<close>, \<^verbatim>\<open>singleSignOnService\<close> and exactly one of \<^verbatim>\<open>x509cert\<close> and
  \<^verbatim>\<open>x509certMulti\<close>; every other key of the defaults' \<^verbatim>\<open>idp\<close> sub-object is absent from
  it; and the section is the same for every defaults template, so nothing of the
  defaults' \<^verbatim>\<open>idp\<close> sub-object is merged in.
\<close>

theorem idp_section_built_from_provider_only:
  assumes "template h defaults"
  shows "\<exists>idp c. section_of (observe 4 (get_provider_config self defaults h)) ''idp'' = Some idp
           \<and> tree_keys idp = [''entityId'', ''singleSignOnService'', c]
           \<and> (c = ''x509cert'' \<or> c = ''x509certMulti'')
           \<and> (tree_get idp ''x509cert'' = None) \<noteq> (tree_get idp ''x509certMulti'' = None)
           \<and> (\<forall>k\<in>set (map fst (sub_items (view 4 h defaults) ''idp'')).
                 k \<notin> {''entityId'', ''singleSignOnService'', c} \<longrightarrow> tree_get idp k = None)
           \<and> (\<forall>h' defaults'. template h' defaults' \<longrightarrow>
                 section_of (observe 4 (get_provider_config self defaults' h')) ''idp'' = Some idp)"
proof (intro exI conjI ballI allI impI)
  show "section_of (observe 4 (get_provider_config self defaults h)) ''idp''
          = Some (idp_tree self)"
    using assms by (rule idp_section)
  show "tree_keys (idp_tree self) = [''entityId'', ''singleSignOnService'', fst (cert_entry self)]"
    by (simp add: idp_tree_def tree_keys_def)
  show "fst (cert_entry self) = ''x509cert'' \<or> fst (cert_entry self) = ''x509certMulti''"
    by (simp add: cert_entry_cases)
  show "(tree_get (idp_tree self) ''x509cert'' = None)
             \<noteq> (tree_get (idp_tree self) ''x509certMulti'' = None)"
    by (simp add: idp_tree_def tree_get_def cert_entry_cases)
  show "tree_get (idp_tree self) k = None"
    if "k \<notin> {''entityId'', ''singleSignOnService'', fst (cert_entry self)}" for k
    using that by (cases "cert_entry self") (simp add: idp_tree_def tree_get_def)
  show "section_of (observe 4 (get_provider_config self defaults' h')) ''idp''
             = Some (idp_tree self)" if "template h' defaults'" for h' defaults'
    using that by (rule idp_section)
qed

theorem idp_section_built_from_provider_only_witness:
  "template store0 (VRef 2) \<and> template [ODict []] (VRef 0)
   \<and> ''extra'' \<in> set (map fst (sub_items (view 4 store0 (VRef 2)) ''idp''))
   \<and> (\<exists>idp c. section_of (observe 4 (get_provider_config scenario_B (VRef 2) store0)) ''idp''
                  = Some idp
           \<and> tree_keys idp = [''entityId'', ''singleSignOnService'', c]
           \<and> (c = ''x509cert'' \<or> c = ''x509certMulti'')
           \<and> (tree_get idp ''x509cert'' = None) \<noteq> (tree_get idp ''x509certMulti'' = None)
           \<and> tree_get idp ''extra'' = None
           \<and> section_of (observe 4 (get_provider_config scenario_B (VRef 0) [ODict []])) ''idp''
                = Some idp)"
proof -
  have t: "template [ODict []] (VRef 0)"
    by (simp add: template_def is_dict_def section_ok_def dict_items_def mapping_items_def
        obj_at_def)
  have e: "''extra'' \<in> set (map fst (sub_items (view 4 store0 (VRef 2)) ''idp''))"
    by code_simp
  note r = idp_section_built_from_provider_only [OF template_store0, of scenario_B]
  show ?thesis
  proof (rule exE [OF r], erule exE, elim conjE)
    fix idp c
    assume 1: "section_of (observe 4 (get_provider_config scenario_B (VRef 2) store0)) ''idp''
                 = Some idp"
      and 2: "tree_keys idp = [''entityId'', ''singleSignOnService'', c]"
      and 3: "c = ''x509cert'' \<or> c = ''x509certMulti''"
      and 4: "(tree_get idp ''x509cert'' = None) \<noteq> (tree_get idp ''x509certMulti'' = None)"
      and 5: "\<forall>k\<in>set (map fst (sub_items (view 4 store0 (VRef 2)) ''idp'')).
        k \<notin> {''entityId'', ''singleSignOnService'', c} \<longrightarrow> tree_get idp k = None"
      and 6: "\<forall>h' defaults'. template h' defaults' \<longrightarrow>
        section_of (observe 4 (get_provider_config scenario_B defaults' h')) ''idp'' = Some idp"
    have x: "''extra'' \<notin> {''entityId'', ''singleSignOnService'', c}"
      using 3 by auto
    from 5 e have "''extra'' \<notin> {''entityId'', ''singleSignOnService'', c}
        \<longrightarrow> tree_get idp ''extra'' = None" by (rule bspec)
    with x have 7: "tree_get idp ''extra'' = None" by (rule rev_mp)
    from 6 have "template [ODict []] (VRef 0) \<longrightarrow>
        section_of (observe 4 (get_provider_config scenario_B (VRef 0) [ODict []])) ''idp''
          = Some idp" by (elim allE)
    with t have 8: "section_of (observe 4 (get_provider_config scenario_B (VRef 0) [ODict []]))
        ''idp'' = Some idp" by (rule rev_mp)
    from template_store0 t e 1 2 3 4 7 8 show ?thesis
      by (intro conjI exI [of _ idp] exI [of _ c])
  qed
qed

text \<open>
  C7. The \<^verbatim>\<open>sp\<close> section of the output is the defaults' \<^verbatim>\<open>sp\<close> sub-object (no items
  when absent) overlaid with \<^verbatim>\<open>entityId = ""\<close>, \<^verbatim>\<open>NameIDFormat = nameidformat\<close> and
  \<^verbatim>\<open>assertionConsumerService = {url: "", binding: sp_acs_binding}\<close>; every other key
  of the defaults' \<^verbatim>\<open>sp\<close> sub-object is passed through with a deep-equal value, at every
  depth \<open>n\<close> of comparison. A template is a nesting of dicts and lists that does not
  contain itself (\<open>self_free\<close>) in a store without dangling addresses (\<open>wf_heap\<close>).
\<close>

theorem sp_section_overlays_defaults:
  assumes "template h defaults" and "wf_heap h" and "self_free h defaults"
  shows "\<exists>sp. section_of (observe (n + 4) (get_provider_config self defaults h)) ''sp''
               = Some (TDict sp)
           \<and> sp = dict_update (sub_items (view (n + 4) h defaults) ''sp'')
                    [(''entityId'', TStr ''''),
                     (''NameIDFormat'', TStr (nameidformat self)),
                     (''assertionConsumerService'',
                        TDict [(''url'', TStr ''''), (''binding'', TStr (sp_acs_binding self))])]
           \<and> map_of sp ''entityId'' = Some (TStr '''')
           \<and> map_of sp ''NameIDFormat'' = Some (TStr (nameidformat self))
           \<and> map_of sp ''assertionConsumerService''
                = Some (TDict [(''url'', TStr ''''), (''binding'', TStr (sp_acs_binding self))])
           \<and> (\<forall>k. k \<notin> {''entityId'', ''NameIDFormat'', ''assertionConsumerService''} \<longrightarrow>
                  map_of sp k = map_of (sub_items (view (n + 4) h defaults) ''sp'') k)"
  using sections(1) [OF assms, of n self]
  by (simp add: sp_overlay_def map_of_overlay3 del: dict_update.simps)

theorem sp_section_overlays_defaults_witness:
  "template store0 (VRef 2) \<and> wf_heap store0 \<and> self_free store0 (VRef 2)
   \<and> section_of (observe 4 (get_provider_config scenario_A (VRef 2) store0)) ''sp''
        = Some (TDict [(''strict'', TBool True),
                       (''entityId'', TStr ''''),
                       (''NameIDFormat'', TStr ''unspecified''),
                       (''assertionConsumerService'',
                          TDict [(''url'', TStr ''''), (''binding'', TStr ''HTTP-POST'')])])"
proof -
  have s: "sub_items (view 4 store0 (VRef 2)) ''sp'' = [(''strict'', TBool True)]"
    by code_simp
  from sp_section_overlays_defaults [OF template_store0 wf_store0 self_free_store0, of 0 scenario_A]
  have "section_of (observe 4 (get_provider_config scenario_A (VRef 2) store0)) ''sp''
        = Some (TDict [(''strict'', TBool True),
                       (''entityId'', TStr ''''),
                       (''NameIDFormat'', TStr ''unspecified''),
                       (''assertionConsumerService'',
                          TDict [(''url'', TStr ''''), (''binding'', TStr ''HTTP-POST'')])])"
    by (simp add: s scenario_A_def)
  with template_store0 wf_store0 self_free_store0 show ?thesis by (intro conjI)
qed

text \<open>
  C8. The \<^verbatim>\<open>security\<close> section of the output is the defaults' \<^verbatim>\<open>security\<close> sub-object
  (no items when absent) overlaid with \<^verbatim>\<open>wantMessagesSigned\<close>, \<^verbatim>\<open>wantAssertionsSigned\<close>
  and \<^verbatim>\<open>wantAssertionsEncrypted\<close> from the provider's flags; every other key of the
  defaults' \<^verbatim>\<open>security\<close> sub-object is passed through with a deep-equal value.
\<close>

theorem security_section_overlays_defaults:
  assumes "template h defaults" and "wf_heap h" and "self_free h defaults"
  shows "\<exists>sec. section_of (observe (n + 4) (get_provider_config self defaults h)) ''security''
               = Some (TDict sec)
           \<and> sec = dict_update (sub_items (view (n + 4) h defaults) ''security'')
                    [(''wantMessagesSigned'', TBool (sec_want_messages_signed self)),
                     (''wantAssertionsSigned'', TBool (sec_want_assertions_signed self)),
                     (''wantAssertionsEncrypted'', TBool (sec_want_assertions_encrypted self))]
           \<and> map_of sec ''wantMessagesSigned'' = Some (TBool (sec_want_messages_signed self))
           \<and> map_of sec ''wantAssertionsSigned'' = Some (TBool (sec_want_assertions_signed self))
           \<and> map_of sec ''wantAssertionsEncrypted''
                = Some (TBool (sec_want_assertions_encrypted self))
           \<and> (\<forall>k. k \<notin> {''wantMessagesSigned'', ''wantAssertionsSigned'',
                          ''wantAssertionsEncrypted''} \<longrightarrow>
                  map_of sec k = map_of (sub_items (view (n + 4) h defaults) ''security'') k)"
  using sections(2) [OF assms, of n self]
  by (simp add: security_overlay_def map_of_overlay3 del: dict_update.simps)

theorem security_section_overlays_defaults_witness:
  "template store1 (VRef 1) \<and> wf_heap store1 \<and> self_free store1 (VRef 1)
   \<and> section_of (observe 4 (get_provider_config scenario_A (VRef 1) store1)) ''security''
        = Some (TDict [(''wantAssertionsSigned'', TBool False),
                       (''signatureAlgorithm'', TStr ''rsa-sha256''),
                       (''wantMessagesSigned'', TBool True),
                       (''wantAssertionsEncrypted'', TBool False)])"
proof -
  have s: "sub_items (view 4 store1 (VRef 1)) ''security''
             = [(''wantAssertionsSigned'', TBool True),
                (''signatureAlgorithm'', TStr ''rsa-sha256'')]"
    by code_simp
  from security_section_overlays_defaults [OF template_store1 wf_store1 self_free_store1,
      of 0 scenario_A]
  have "section_of (observe 4 (get_provider_config scenario_A (VRef 1) store1)) ''security''
        = Some (TDict [(''wantAssertionsSigned'', TBool False),
                       (''signatureAlgorithm'', TStr ''rsa-sha256''),
                       (''wantMessagesSigned'', TBool True),
                       (''wantAssertionsEncrypted'', TBool False)])"
    by (simp add: s scenario_A_def del: One_nat_def)
  with template_store1 wf_store1 self_free_store1 show ?thesis by (intro conjI)
qed

text \<open>
  C9. For every defaults template the top-level keys of the output are exactly
  \<^verbatim>\<open>idp\<close>, \<^verbatim>\<open>sp\<close>, \<^verbatim>\<open>security\<close>, \<^verbatim>\<open>debug\<close>, \<^verbatim>\<open>lowercase_urlencoding\<close> and
  \<^verbatim>\<open>idp_initiated_auth\<close>; any other top-level key of the defaults is absent from it.
\<close>

theorem top_level_keys_are_the_six:
  assumes "template h defaults"
  shows "top_keys (observe 4 (get_provider_config self defaults h)) =
           [''idp'', ''sp'', ''security'', ''debug'', ''lowercase_urlencoding'',
            ''idp_initiated_auth'']
         \<and> (\<forall>k\<in>set (tree_keys (view 4 h defaults)).
               k \<notin> {''idp'', ''sp'', ''security'', ''debug'', ''lowercase_urlencoding'',
                      ''idp_initiated_auth''}
               \<longrightarrow> section_of (observe 4 (get_provider_config self defaults h)) k = None)"
proof -
  from output_shape [OF assms, of 0 self] obtain sp sec where
    o: "observe 4 (get_provider_config self defaults h) =
           Inr (TDict ([(''idp'', idp_tree self), (''sp'', sp), (''security'', sec)]
                        @ flag_items self))"
    by auto
  show ?thesis
    unfolding o by (simp add: top_keys_def tree_keys_def section_of_def tree_get_def flag_items_def)
qed

theorem top_level_keys_are_the_six_witness:
  "template store0 (VRef 2)
   \<and> ''custom'' \<in> set (tree_keys (view 4 store0 (VRef 2)))
   \<and> top_keys (observe 4 (get_provider_config scenario_A (VRef 2) store0)) =
           [''idp'', ''sp'', ''security'', ''debug'', ''lowercase_urlencoding'',
            ''idp_initiated_auth'']
   \<and> section_of (observe 4 (get_provider_config scenario_A (VRef 2) store0)) ''custom'' = None"
proof -
  have "''custom'' \<in> set (tree_keys (view 4 store0 (VRef 2)))"
    by code_simp
  with top_level_keys_are_the_six [of store0 "VRef 2" scenario_A] template_store0
  show ?thesis by simp
qed

text \<open>
  C10. In every call \<^verbatim>\<open>certs\<close> has both the key \<^verbatim>\<open>signing\<close> and the key \<^verbatim>\<open>encryption\<close>,
  so its length is 2, the first disjunct of the condition (with \<^verbatim>\<open>len(certs) == 1\<close>) is
  false, and the test \<^verbatim>\<open>"signing" in certs\<close> of line 167 succeeds: the else branch is
  not reached. Whenever \<^verbatim>\<open>x509cert\<close> is emitted, in \<^verbatim>\<open>idp_certificates\<close> and in the
  output, its value is \<^verbatim>\<open>certs["signing"][0]\<close>.
\<close>

theorem certs_has_both_roles_first_disjunct_dead:
  "map_of (certs_of self) ''signing'' = Some (idp_x509_signing_certificates self)
   \<and> map_of (certs_of self) ''encryption'' = Some (idp_x509_encryption_certificates self)
   \<and> length (certs_of self) = 2
   \<and> \<not> only_role_single (certs_of self)
   \<and> single_role (certs_of self) = ''signing''
   \<and> (\<forall>flds c. idp_certificates_of (certs_of self) = Inr flds \<longrightarrow>
          map_of flds ''x509cert'' = Some (Single c) \<longrightarrow>
          first_of (certs_of self) ''signing'' = Inr c)
   \<and> (template h defaults \<longrightarrow>
        (\<forall>idp v. section_of (observe 4 (get_provider_config self defaults h)) ''idp'' = Some idp
           \<longrightarrow> tree_get idp ''x509cert'' = Some v
           \<longrightarrow> (\<exists>c. first_of (certs_of self) ''signing'' = Inr c \<and> v = TStr c)))"
proof (intro conjI allI impI)
  show "map_of (certs_of self) ''signing'' = Some (idp_x509_signing_certificates self)"
    by (simp add: certs_of_def)
  show "map_of (certs_of self) ''encryption'' = Some (idp_x509_encryption_certificates self)"
    by (simp add: certs_of_def)
  show "length (certs_of self) = 2"
    by (simp add: certs_of_def)
  show "\<not> only_role_single (certs_of self)"
    by (simp add: only_role_single_def certs_of_def)
  show "single_role (certs_of self) = ''signing''"
    by (simp add: single_role_def certs_of_def)
next
  fix flds c
  assume "idp_certificates_of (certs_of self) = Inr flds"
    and "map_of flds ''x509cert'' = Some (Single c)"
  then have "length (idp_x509_signing_certificates self) = 1
      \<and> c = hd (idp_x509_signing_certificates self)"
    unfolding idp_certificates_of_certs by (auto split: if_splits)
  then show "first_of (certs_of self) ''signing'' = Inr c"
    by (simp add: first_of_signing)
next
  fix idp v
  assume t: "template h defaults"
    and i: "section_of (observe 4 (get_provider_config self defaults h)) ''idp'' = Some idp"
    and x: "tree_get idp ''x509cert'' = Some v"
  from i idp_section [OF t, of self] have "idp = idp_tree self" by simp
  with x have "length (idp_x509_signing_certificates self) = 1
      \<and> v = TStr (hd (idp_x509_signing_certificates self))"
    by (auto simp: idp_tree_def tree_get_def cert_entry_cases split: if_splits)
  then show "\<exists>c. first_of (certs_of self) ''signing'' = Inr c \<and> v = TStr c"
    by (simp add: first_of_signing)
qed

theorem certs_has_both_roles_first_disjunct_dead_witness:
  "template store0 (VRef 2)
   \<and> idp_certificates_of (certs_of scenario_B) = Inr [(''x509cert'', Single ''CERTA'')]
   \<and> map_of [(''x509cert'', Single ''CERTA'')] ''x509cert'' = Some (Single ''CERTA'')
   \<and> first_of (certs_of scenario_B) ''signing'' = Inr ''CERTA''
   \<and> \<not> only_role_single (certs_of scenario_B)
   \<and> single_role (certs_of scenario_B) = ''signing''
   \<and> section_of (observe 4 (get_provider_config scenario_B (VRef 2) store0)) ''idp''
        = Some (idp_tree scenario_B)
   \<and> tree_get (idp_tree scenario_B) ''x509cert'' = Some (TStr ''CERTA'')
   \<and> (\<exists>c. first_of (certs_of scenario_B) ''signing'' = Inr c \<and> TStr ''CERTA'' = TStr c)"
proof -
  note r = certs_has_both_roles_first_disjunct_dead [of scenario_B store0 "VRef 2"]
  have f: "idp_certificates_of (certs_of scenario_B) = Inr [(''x509cert'', Single ''CERTA'')]"
    by code_simp
  have m: "map_of [(''x509cert'', Single ''CERTA'')] ''x509cert'' = Some (Single ''CERTA'')"
    by simp
  have i: "section_of (observe 4 (get_provider_config scenario_B (VRef 2) store0)) ''idp''
        = Some (idp_tree scenario_B)"
    using template_store0 by (rule idp_section)
  have x: "tree_get (idp_tree scenario_B) ''x509cert'' = Some (TStr ''CERTA'')"
    by code_simp
  from r have 1: "\<not> only_role_single (certs_of scenario_B)"
    by (elim conjE)
  from r have 2: "single_role (certs_of scenario_B) = ''signing''"
    by (elim conjE)
  from r have 3: "\<forall>flds c. idp_certificates_of (certs_of scenario_B) = Inr flds \<longrightarrow>
          map_of flds ''x509cert'' = Some (Single c) \<longrightarrow>
          first_of (certs_of scenario_B) ''signing'' = Inr c"
    by (elim conjE)
  from r have 4: "template store0 (VRef 2) \<longrightarrow>
        (\<forall>idp v. section_of (observe 4 (get_provider_config scenario_B (VRef 2) store0)) ''idp''
             = Some idp
           \<longrightarrow> tree_get idp ''x509cert'' = Some v
           \<longrightarrow> (\<exists>c. first_of (certs_of scenario_B) ''signing'' = Inr c \<and> v = TStr c))"
    by (elim conjE)
  from 3 f m have 5: "first_of (certs_of scenario_B) ''signing'' = Inr ''CERTA''"
    by (elim allE impE) assumption+
  from 4 template_store0 i x
  have 6: "\<exists>c. first_of (certs_of scenario_B) ''signing'' = Inr c \<and> TStr ''CERTA'' = TStr c"
    by (elim allE impE) assumption+
  from template_store0 f m 5 1 2 i x 6 show ?thesis by (intro conjI)
qed

end
